theory Spec2Isabelle
  imports Complex_Main "HOL-Library.Word"
begin

unbundle bit_operations_syntax

section \<open>Conventions\<close>

text \<open>
  The probes are Python scripts. Python \<open>int\<close> is modelled by \<^typ>\<open>int\<close>, a byte of a
  \<open>bytes\<close> object by \<^typ>\<open>8 word\<close>, and a Python \<open>float\<close> by \<^typ>\<open>real\<close>: the model computes
  with the exact value where the interpreter rounds to the nearest double, and has no NaN and
  no infinity. Exceptions are values of a sum type, \<open>Inl\<close> carrying the error.
\<close>

type_synonym byte = "8 word"

text \<open>
  The exceptions of the probes: the arithmetic ones, \<open>struct.error\<close>, \<open>IndexError\<close>, and
  the \<open>ValueError\<close>s, told apart by what raises them (\<open>np.zeros\<close> of a negative length, the
  two WAV readers' own three, \<open>np.frombuffer\<close> on a buffer that is not a whole number of
  elements, \<open>reshape\<close> to a shape that does not fit, and the FFT of an empty array).
\<close>

datatype py_error =
    ZeroDivisionError
  | NegativeDimensions
  | StructError
  | IndexError
  | NotWav
  | NoAudioData
  | UnsupportedBits nat
  | BufferSize
  | ReshapeError
  | EmptyFFT

section \<open>decide.py: the mode decision\<close>

definition ULTRASONIC_SNR_THRESHOLD :: real where
  "ULTRASONIC_SNR_THRESHOLD = 20"

definition ULTRASONIC_PER_THRESHOLD :: real where
  "ULTRASONIC_PER_THRESHOLD = 5 / 100"

definition AUDIBLE_SNR_THRESHOLD :: real where
  "AUDIBLE_SNR_THRESHOLD = 10"

definition AUDIBLE_PER_THRESHOLD :: real where
  "AUDIBLE_PER_THRESHOLD = 20 / 100"

definition ULTRASONIC_FREQ0 :: int where
  "ULTRASONIC_FREQ0 = 18000"

definition ULTRASONIC_FREQ1 :: int where
  "ULTRASONIC_FREQ1 = 20000"

definition AUDIBLE_FREQ0 :: int where
  "AUDIBLE_FREQ0 = 1200"

definition AUDIBLE_FREQ1 :: int where
  "AUDIBLE_FREQ1 = 2400"

datatype mode = Ultrasonic | Audible | File

text \<open>
  The dictionary \<open>decide_mode\<close> returns. \<open>None\<close> in a field is Python's \<open>None\<close>. The
  \<open>reason\<close> entry, a message formatted from the same numbers, is left out.
\<close>

record decision =
  mode :: mode
  freq0_hz :: "int option"
  freq1_hz :: "int option"
  baud_rate :: "int option"
  confidence :: real

definition decide_mode :: "real \<Rightarrow> real \<Rightarrow> decision" where
  "decide_mode snr_db per =
     (if snr_db \<ge> ULTRASONIC_SNR_THRESHOLD \<and> per \<le> ULTRASONIC_PER_THRESHOLD then
        \<lparr>mode = Ultrasonic, freq0_hz = Some ULTRASONIC_FREQ0, freq1_hz = Some ULTRASONIC_FREQ1,
         baud_rate = Some 150, confidence = min 1 (snr_db / 40)\<rparr>
      else if snr_db \<ge> AUDIBLE_SNR_THRESHOLD \<and> per \<le> AUDIBLE_PER_THRESHOLD then
        \<lparr>mode = Audible, freq0_hz = Some AUDIBLE_FREQ0, freq1_hz = Some AUDIBLE_FREQ1,
         baud_rate = Some 300, confidence = min 1 (snr_db / 30)\<rparr>
      else
        \<lparr>mode = File, freq0_hz = None, freq1_hz = None, baud_rate = None, confidence = 1\<rparr>)"

text \<open>The order of the ladder: ultrasonic above audible above file.\<close>

fun mode_rank :: "mode \<Rightarrow> nat" where
  "mode_rank File = 0"
| "mode_rank Audible = 1"
| "mode_rank Ultrasonic = 2"

lemmas decide_consts =
  ULTRASONIC_SNR_THRESHOLD_def ULTRASONIC_PER_THRESHOLD_def
  AUDIBLE_SNR_THRESHOLD_def AUDIBLE_PER_THRESHOLD_def
  ULTRASONIC_FREQ0_def ULTRASONIC_FREQ1_def AUDIBLE_FREQ0_def AUDIBLE_FREQ1_def

section \<open>Properties of the decision\<close>

lemma decide_mode_ultrasonic_iff:
  "mode (decide_mode snr_db per) = Ultrasonic \<longleftrightarrow> 20 \<le> snr_db \<and> per \<le> 5 / 100"
  by (simp add: decide_mode_def decide_consts)

lemma decide_mode_audible_iff:
  "mode (decide_mode snr_db per) = Audible \<longleftrightarrow>
     \<not> (20 \<le> snr_db \<and> per \<le> 5 / 100) \<and> 10 \<le> snr_db \<and> per \<le> 20 / 100"
  by (simp add: decide_mode_def decide_consts)

lemma decide_mode_file_iff:
  "mode (decide_mode snr_db per) = File \<longleftrightarrow>
     \<not> (20 \<le> snr_db \<and> per \<le> 5 / 100) \<and> \<not> (10 \<le> snr_db \<and> per \<le> 20 / 100)"
  by (simp add: decide_mode_def decide_consts)

text \<open>
  C3. The decision is the ultrasonic profile (18000 Hz, 20000 Hz, 150 baud, confidence
  \<open>min 1 (snr_db / 40)\<close>) exactly when \<open>snr_db \<ge> 20\<close> and \<open>per \<le> 0.05\<close>; failing that it is the
  audible profile (1200 Hz, 2400 Hz, 300 baud, confidence \<open>min 1 (snr_db / 30)\<close>) exactly when
  \<open>snr_db \<ge> 10\<close> and \<open>per \<le> 0.20\<close>; failing both it is the file profile with confidence 1.
  The four scenario points and the two inclusive corners come out as the specification lists
  them.
\<close>

theorem decide_mode_ladder:
  "(decide_mode snr_db per =
      \<lparr>mode = Ultrasonic, freq0_hz = Some 18000, freq1_hz = Some 20000,
       baud_rate = Some 150, confidence = min 1 (snr_db / 40)\<rparr>)
     = (20 \<le> snr_db \<and> per \<le> 5 / 100)
   \<and> (decide_mode snr_db per =
      \<lparr>mode = Audible, freq0_hz = Some 1200, freq1_hz = Some 2400,
       baud_rate = Some 300, confidence = min 1 (snr_db / 30)\<rparr>)
     = (\<not> (20 \<le> snr_db \<and> per \<le> 5 / 100) \<and> 10 \<le> snr_db \<and> per \<le> 20 / 100)
   \<and> (decide_mode snr_db per =
      \<lparr>mode = File, freq0_hz = None, freq1_hz = None, baud_rate = None, confidence = 1\<rparr>)
     = (\<not> (20 \<le> snr_db \<and> per \<le> 5 / 100) \<and> \<not> (10 \<le> snr_db \<and> per \<le> 20 / 100))
   \<and> mode (decide_mode 25 (2 / 100)) = Ultrasonic
   \<and> mode (decide_mode 15 (10 / 100)) = Audible
   \<and> mode (decide_mode 8 (2 / 100)) = File
   \<and> mode (decide_mode 25 (25 / 100)) = File
   \<and> mode (decide_mode 20 (5 / 100)) = Ultrasonic
   \<and> mode (decide_mode 10 (20 / 100)) = Audible"
  by (simp add: decide_mode_def decide_consts)

text \<open>
  C4. The ladder is monotone: with \<open>per\<close> fixed, a higher \<open>snr_db\<close> never gives a lower mode,
  and with \<open>snr_db\<close> fixed, a lower \<open>per\<close> never gives a lower mode.
\<close>

theorem decide_mode_monotone:
  "(snr2 \<le> snr1 \<longrightarrow>
      mode_rank (mode (decide_mode snr2 per)) \<le> mode_rank (mode (decide_mode snr1 per)))
   \<and> (per1 \<le> per2 \<longrightarrow>
      mode_rank (mode (decide_mode snr_db per2)) \<le> mode_rank (mode (decide_mode snr_db per1)))"
  by (simp add: decide_mode_def decide_consts)

theorem decide_mode_monotone_witness:
  "mode_rank (mode (decide_mode 15 (2 / 100))) < mode_rank (mode (decide_mode 25 (2 / 100)))
   \<and> mode_rank (mode (decide_mode 15 (2 / 100))) \<le> mode_rank (mode (decide_mode 25 (2 / 100)))
   \<and> mode_rank (mode (decide_mode 25 (10 / 100))) \<le> mode_rank (mode (decide_mode 25 (2 / 100)))"
  using decide_mode_monotone [of 15 25 "2 / 100" "2 / 100" "10 / 100" 25]
  by (simp add: decide_mode_def decide_consts)

section \<open>Python numerics\<close>

text \<open>
  \<open>int(x)\<close> on a float truncates toward zero. \<open>round(x, ndigits)\<close> rounds to the nearest
  multiple of \<open>10 ^ -ndigits\<close>, ties to the even one; the model rounds the exact value, where
  the interpreter rounds the double nearest to it.
\<close>

definition py_int :: "real \<Rightarrow> int" where
  "py_int x = (if 0 \<le> x then \<lfloor>x\<rfloor> else \<lceil>x\<rceil>)"

definition round_half_even :: "real \<Rightarrow> int" where
  "round_half_even y =
     (let f = \<lfloor>y\<rfloor>; d = y - of_int f
      in if d < 1 / 2 then f else if d > 1 / 2 then f + 1 else if even f then f else f + 1)"

definition py_round :: "nat \<Rightarrow> real \<Rightarrow> real" where
  "py_round ndigits x = of_int (round_half_even (x * 10 ^ ndigits)) / 10 ^ ndigits"






section \<open>recv.py: packet extraction and packet accounting\<close>

text \<open>
  \<open>hashlib.sha256(...).digest()\<close> is a library function; the model takes it as the parameter
  \<open>sha256\<close>. \<open>slice xs a b\<close> is Python's \<open>xs[a:b]\<close> for \<open>0 \<le> a\<close>, \<open>0 \<le> b\<close>;
  \<open>find_bytes sub xs start\<close> is \<open>xs.find(sub, start)\<close>, with \<open>None\<close> for \<open>-1\<close>;
  \<open>unpack_be16\<close> is \<open>struct.unpack(">H", ...)[0]\<close> on a two-byte slice.
\<close>

definition CALIBRATION_MAGIC :: "byte list" where
  "CALIBRATION_MAGIC = [0xCA, 0x1B, 0xDA, 0x7A]"

definition CALIBRATION_PAYLOAD :: "byte list" where
  "CALIBRATION_PAYLOAD = map of_char ''TPC-CALIBRATE-2026''"

definition slice :: "'a list \<Rightarrow> nat \<Rightarrow> nat \<Rightarrow> 'a list" where
  "slice xs a b = take (b - a) (drop a xs)"

definition unpack_be16 :: "byte list \<Rightarrow> nat" where
  "unpack_be16 bs = 256 * unat (bs ! 0) + unat (bs ! 1)"

function find_bytes :: "byte list \<Rightarrow> byte list \<Rightarrow> nat \<Rightarrow> nat option" where
  "find_bytes sub xs start =
     (if length xs < start + length sub then None
      else if take (length sub) (drop start xs) = sub then Some start
      else find_bytes sub xs (Suc start))"
  by pat_completeness auto
termination
  by (relation "measure (\<lambda>(sub, xs, start). Suc (length xs) - start)") auto

declare find_bytes.simps [simp del]

record packet =
  seq :: nat
  valid_hash :: bool
  payload_match :: bool
  intact :: bool

text \<open>
  One pass through the body of the \<open>while\<close> loop of \<open>extract_packets\<close>, from the cursor
  \<open>i\<close>: \<open>Exit\<close> is the \<open>break\<close>, \<open>Continue j p\<close> sets the cursor to \<open>j\<close> and appends the
  packet \<open>p\<close> when there is one.
\<close>

datatype step = Exit | Continue nat "packet option"

definition scan_step :: "(byte list \<Rightarrow> byte list) \<Rightarrow> byte list \<Rightarrow> nat \<Rightarrow> step" where
  "scan_step sha256 raw_data i =
     (case find_bytes CALIBRATION_MAGIC raw_data i of
        None \<Rightarrow> Exit
      | Some magic_idx \<Rightarrow>
          if magic_idx < 2 then Continue (magic_idx + 1) None
          else
            let len = unpack_be16 (slice raw_data (magic_idx - 2) magic_idx);
                packet_start = magic_idx - 2;
                packet_end = packet_start + 2 + len
            in if packet_end > length raw_data then Continue (magic_idx + 1) None
               else
                 let packet_body = slice raw_data (packet_start + 2) packet_end
                 in if length packet_body < 56 then Continue (magic_idx + 1) None
                    else
                      let magic = slice packet_body 0 4;
                          payload = slice packet_body 6 24;
                          received_hash = slice packet_body 24 56;
                          expected_hash = sha256 (magic @ slice packet_body 4 6 @ payload);
                          valid = (received_hash = expected_hash);
                          pm = (payload = CALIBRATION_PAYLOAD)
                      in Continue packet_end
                           (Some \<lparr>seq = unpack_be16 (slice packet_body 4 6), valid_hash = valid,
                                  payload_match = pm, intact = (valid \<and> pm)\<rparr>))"

lemma find_bytes_bounds:
  "find_bytes sub xs start = Some j \<Longrightarrow> start \<le> j \<and> j + length sub \<le> length xs"
proof (induction sub xs start rule: find_bytes.induct)
  case (1 sub xs start)
  show ?case
  proof (cases "length xs < start + length sub")
    case True
    with "1.prems" show ?thesis by (simp add: find_bytes.simps [of sub xs start])
  next
    case False
    note nf = this
    show ?thesis
    proof (cases "take (length sub) (drop start xs) = sub")
      case True
      with nf "1.prems" show ?thesis by (simp add: find_bytes.simps [of sub xs start])
    next
      case False
      with nf "1.prems" have "find_bytes sub xs (Suc start) = Some j"
        by (simp add: find_bytes.simps [of sub xs start])
      with "1.IH" [OF nf False] show ?thesis by simp
    qed
  qed
qed

lemma scan_step_cursor:
  assumes "scan_step sha256 raw_data i = Continue j p"
  obtains m where "find_bytes CALIBRATION_MAGIC raw_data i = Some m"
    and "j = m + 1 \<or>
         (2 \<le> m \<and> j = m - 2 + 2 + unpack_be16 (slice raw_data (m - 2) m) \<and>
          56 \<le> length (slice raw_data (m - 2 + 2) j))"
proof -
  obtain m where m: "find_bytes CALIBRATION_MAGIC raw_data i = Some m"
    using assms by (cases "find_bytes CALIBRATION_MAGIC raw_data i") (simp_all add: scan_step_def)
  from assms have "j = m + 1 \<or>
         (2 \<le> m \<and> j = m - 2 + 2 + unpack_be16 (slice raw_data (m - 2) m) \<and>
          56 \<le> length (slice raw_data (m - 2 + 2) j))"
    unfolding scan_step_def m option.case Let_def
    by (simp split: if_splits)
  with m that show ?thesis by blast
qed

lemma scan_step_advances:
  assumes "scan_step sha256 raw_data i = Continue j p"
  shows "i < j"
proof -
  from assms obtain m where m: "find_bytes CALIBRATION_MAGIC raw_data i = Some m"
    and j: "j = m + 1 \<or>
         (2 \<le> m \<and> j = m - 2 + 2 + unpack_be16 (slice raw_data (m - 2) m) \<and>
          56 \<le> length (slice raw_data (m - 2 + 2) j))"
    by (rule scan_step_cursor)
  from m have im: "i \<le> m" using find_bytes_bounds by blast
  from j show ?thesis
  proof
    assume "j = m + 1"
    with im show ?thesis by simp
  next
    assume r: "2 \<le> m \<and> j = m - 2 + 2 + unpack_be16 (slice raw_data (m - 2) m) \<and>
          56 \<le> length (slice raw_data (m - 2 + 2) j)"
    have "length (slice raw_data (m - 2 + 2) j) \<le> j - (m - 2 + 2)"
      unfolding slice_def by simp
    with r have "56 \<le> j - (m - 2 + 2)" by linarith
    with r im show ?thesis by linarith
  qed
qed

function extract_from ::
  "(byte list \<Rightarrow> byte list) \<Rightarrow> byte list \<Rightarrow> nat \<Rightarrow> packet list \<Rightarrow> packet list" where
  "extract_from sha256 raw_data i packets =
     (if int i < int (length raw_data) - 2 then
        (case scan_step sha256 raw_data i of
           Exit \<Rightarrow> packets
         | Continue j p \<Rightarrow> extract_from sha256 raw_data j (packets @ (case p of None \<Rightarrow> [] | Some pk \<Rightarrow> [pk])))
      else packets)"
  by pat_completeness auto
termination
proof (relation "measure (\<lambda>(sha256, raw_data, i, packets). length raw_data - i)")
  show "wf (measure (\<lambda>(sha256, raw_data, i, packets). length raw_data - i))" by simp
next
  fix sha256 :: "byte list \<Rightarrow> byte list" and raw_data i and packets :: "packet list" and j p
  assume "int i < int (length raw_data) - 2" and "scan_step sha256 raw_data i = Continue j p"
  then show "((sha256, raw_data, j, packets @ (case p of None \<Rightarrow> [] | Some pk \<Rightarrow> [pk])),
               (sha256, raw_data, i, packets))
             \<in> measure (\<lambda>(sha256, raw_data, i, packets). length raw_data - i)"
    using scan_step_advances [of sha256 raw_data i j p] by simp
qed

declare extract_from.simps [simp del]

definition extract_packets :: "(byte list \<Rightarrow> byte list) \<Rightarrow> byte list \<Rightarrow> packet list" where
  "extract_packets sha256 raw_data = extract_from sha256 raw_data 0 []"

text \<open>The same loop with a bound on the number of iterations; \<open>None\<close> when the bound is hit.\<close>

fun extract_fuel ::
  "nat \<Rightarrow> (byte list \<Rightarrow> byte list) \<Rightarrow> byte list \<Rightarrow> nat \<Rightarrow> packet list \<Rightarrow> packet list option" where
  "extract_fuel 0 sha256 raw_data i packets = None"
| "extract_fuel (Suc n) sha256 raw_data i packets =
     (if int i < int (length raw_data) - 2 then
        (case scan_step sha256 raw_data i of
           Exit \<Rightarrow> Some packets
         | Continue j p \<Rightarrow> extract_fuel n sha256 raw_data j (packets @ (case p of None \<Rightarrow> [] | Some pk \<Rightarrow> [pk])))
      else Some packets)"

lemma extract_fuel_enough:
  "length raw_data - i < n \<Longrightarrow>
     extract_fuel n sha256 raw_data i packets = Some (extract_from sha256 raw_data i packets)"
proof (induction n arbitrary: i packets)
  case 0
  then show ?case by simp
next
  case (Suc n)
  show ?case
  proof (cases "int i < int (length raw_data) - 2")
    case False
    then show ?thesis by (simp add: extract_from.simps [of sha256 raw_data i])
  next
    case True
    note run = this
    show ?thesis
    proof (cases "scan_step sha256 raw_data i")
      case Exit
      with run show ?thesis by (simp add: extract_from.simps [of sha256 raw_data i])
    next
      case (Continue j p)
      then have "i < j" by (rule scan_step_advances)
      with Suc.prems run have "length raw_data - j < n" by linarith
      from Suc.IH [OF this] Continue run show ?thesis
        by (simp add: extract_from.simps [of sha256 raw_data i])
    qed
  qed
qed


text \<open>The packet accounting of \<open>main\<close>, from the list \<open>extract_packets\<close> returned.\<close>

record recv_report =
  packets_found :: int
  packets_intact :: int
  packets_corrupted :: int
  packets_lost :: int
  per :: real
  per_percent :: real
  quality :: string

definition per_report :: "int \<Rightarrow> packet list \<Rightarrow> recv_report" where
  "per_report total_expected packets =
     (let lost = max 0 (total_expected - int (length packets));
          corrupted = int (length (filter (\<lambda>p. \<not> intact p) packets));
          total_errors = lost + corrupted;
          per_v = py_round 4 (of_int total_errors / of_int (max total_expected 1))
      in \<lparr>packets_found = int (length packets),
          packets_intact = int (length (filter intact packets)),
          packets_corrupted = int (length (filter (\<lambda>p. \<not> intact p) packets)),
          packets_lost = lost,
          per = per_v,
          per_percent = py_round 2 (100 * of_int total_errors / of_int (max total_expected 1)),
          quality = (if per_v = 0 then ''excellent'' else if per_v < 1 / 10 then ''good''
                     else if per_v < 3 / 10 then ''marginal'' else ''poor'')\<rparr>)"







lemma scan_step_cases:
  "(scan_step sha256 raw_data i = Exit \<and> find_bytes CALIBRATION_MAGIC raw_data i = None)
   \<or> (\<exists>m. find_bytes CALIBRATION_MAGIC raw_data i = Some m \<and> i \<le> m
          \<and> scan_step sha256 raw_data i = Continue (m + 1) None)
   \<or> (\<exists>m pk. find_bytes CALIBRATION_MAGIC raw_data i = Some m \<and> i \<le> m \<and> 2 \<le> m
          \<and> scan_step sha256 raw_data i
              = Continue (m + unpack_be16 (slice raw_data (m - 2) m)) (Some pk)
          \<and> m + 56 \<le> m + unpack_be16 (slice raw_data (m - 2) m)
          \<and> m + unpack_be16 (slice raw_data (m - 2) m) \<le> length raw_data)"
proof (cases "find_bytes CALIBRATION_MAGIC raw_data i")
  case None
  then show ?thesis by (simp add: scan_step_def)
next
  case (Some m)
  then have im: "i \<le> m" using find_bytes_bounds by blast
  let ?len = "unpack_be16 (slice raw_data (m - 2) m)"
  show ?thesis
  proof (cases "m < 2")
    case True
    with Some im show ?thesis by (simp add: scan_step_def)
  next
    case False
    then have m2: "2 \<le> m" by simp
    then obtain k where k: "m = k + 2" by (auto simp: le_iff_add add.commute)
    have mk: "m - 2 = k" using k by simp
    let ?n = "unpack_be16 (slice raw_data k (k + 2))"
    have body: "length (slice raw_data (k + 2) (k + 2 + ?n)) = min (length raw_data - (k + 2)) ?n"
      by (simp add: slice_def min.commute)
    have step: "scan_step sha256 raw_data i =
        (if k + 2 + ?n > length raw_data then Continue (k + 2 + 1) None
         else if length (slice raw_data (k + 2) (k + 2 + ?n)) < 56 then Continue (k + 2 + 1) None
         else Continue (k + 2 + ?n)
           (Some \<lparr>seq = unpack_be16 (slice (slice raw_data (k + 2) (k + 2 + ?n)) 4 6),
              valid_hash = (slice (slice raw_data (k + 2) (k + 2 + ?n)) 24 56
                 = sha256 (slice (slice raw_data (k + 2) (k + 2 + ?n)) 0 4
                     @ slice (slice raw_data (k + 2) (k + 2 + ?n)) 4 6
                     @ slice (slice raw_data (k + 2) (k + 2 + ?n)) 6 24)),
              payload_match = (slice (slice raw_data (k + 2) (k + 2 + ?n)) 6 24
                 = CALIBRATION_PAYLOAD),
              intact = (slice (slice raw_data (k + 2) (k + 2 + ?n)) 24 56
                 = sha256 (slice (slice raw_data (k + 2) (k + 2 + ?n)) 0 4
                     @ slice (slice raw_data (k + 2) (k + 2 + ?n)) 4 6
                     @ slice (slice raw_data (k + 2) (k + 2 + ?n)) 6 24)
                 \<and> slice (slice raw_data (k + 2) (k + 2 + ?n)) 6 24
                 = CALIBRATION_PAYLOAD)\<rparr>))"
      unfolding scan_step_def Some option.case k Let_def by simp
    show ?thesis
    proof (cases "k + 2 + ?n > length raw_data")
      case True
      with Some im show ?thesis unfolding step k by simp
    next
      case False
      note fits = this
      then have lb: "length (slice raw_data (k + 2) (k + 2 + ?n)) = ?n"
        unfolding body by simp
      show ?thesis
      proof (cases "?n < 56")
        case True
        with Some im fits lb show ?thesis unfolding step k by simp
      next
        case False
        with Some im fits lb show ?thesis unfolding step mk unfolding k by simp
      qed
    qed
  qed
qed

text \<open>
  C10. The scan loop of \<open>extract_packets\<close> terminates. From any cursor \<open>i\<close> one pass either
  leaves the loop because no magic occurs from \<open>i\<close> on, or rejects the candidate at the match
  \<open>m \<ge> i\<close> and moves the cursor to \<open>m + 1 > i\<close>, or records a packet and moves the cursor
  past its body, to \<open>m + length > i\<close>. The loop therefore ends within \<open>length raw_data + 1\<close>
  passes, with the result of \<open>extract_packets\<close>.
\<close>

theorem extract_packets_terminates:
  "((scan_step sha256 raw_data i = Exit \<and> find_bytes CALIBRATION_MAGIC raw_data i = None)
    \<or> (\<exists>m. find_bytes CALIBRATION_MAGIC raw_data i = Some m \<and> i \<le> m
          \<and> scan_step sha256 raw_data i = Continue (m + 1) None \<and> i < m + 1)
    \<or> (\<exists>m pk. find_bytes CALIBRATION_MAGIC raw_data i = Some m \<and> i \<le> m \<and> 2 \<le> m
          \<and> scan_step sha256 raw_data i
              = Continue (m + unpack_be16 (slice raw_data (m - 2) m)) (Some pk)
          \<and> i < m + unpack_be16 (slice raw_data (m - 2) m)
          \<and> m + unpack_be16 (slice raw_data (m - 2) m) \<le> length raw_data))
   \<and> extract_fuel (Suc (length raw_data)) sha256 raw_data 0 []
       = Some (extract_packets sha256 raw_data)"
proof -
  have "extract_fuel (Suc (length raw_data)) sha256 raw_data 0 []
       = Some (extract_packets sha256 raw_data)"
    unfolding extract_packets_def by (rule extract_fuel_enough) simp
  moreover have "(scan_step sha256 raw_data i = Exit \<and> find_bytes CALIBRATION_MAGIC raw_data i = None)
    \<or> (\<exists>m. find_bytes CALIBRATION_MAGIC raw_data i = Some m \<and> i \<le> m
          \<and> scan_step sha256 raw_data i = Continue (m + 1) None \<and> i < m + 1)
    \<or> (\<exists>m pk. find_bytes CALIBRATION_MAGIC raw_data i = Some m \<and> i \<le> m \<and> 2 \<le> m
          \<and> scan_step sha256 raw_data i
              = Continue (m + unpack_be16 (slice raw_data (m - 2) m)) (Some pk)
          \<and> i < m + unpack_be16 (slice raw_data (m - 2) m)
          \<and> m + unpack_be16 (slice raw_data (m - 2) m) \<le> length raw_data)"
    using scan_step_cases [of sha256 raw_data i] by fastforce
  ultimately show ?thesis by (rule conjI [rotated])
qed

section \<open>send.py: the calibration frame and the modulator\<close>

text \<open>
  \<open>send.py\<close> defines the same \<open>CALIBRATION_MAGIC\<close> and \<open>CALIBRATION_PAYLOAD\<close> as
  \<open>recv.py\<close>. \<open>pack_be16\<close> is \<open>struct.pack(">H", v)\<close>, which raises outside
  \<open>0 .. 65535\<close>. The \<open>try\<close> block of \<open>main\<close> can catch a division by zero, \<open>np.zeros\<close> of
  a negative length, \<open>struct.error\<close>, and the index error of \<open>packet_sizes[0]\<close>.
\<close>

definition pack_be16 :: "int \<Rightarrow> py_error + byte list" where
  "pack_be16 v =
     (if 0 \<le> v \<and> v \<le> 65535 then Inr [word_of_int (v div 256), word_of_int (v mod 256)]
      else Inl StructError)"

definition generate_calibration_packet ::
  "(byte list \<Rightarrow> byte list) \<Rightarrow> int \<Rightarrow> py_error + byte list" where
  "generate_calibration_packet sha256 sq =
     (case pack_be16 sq of
        Inl e \<Rightarrow> Inl e
      | Inr seq_bytes \<Rightarrow>
          let digest = sha256 (CALIBRATION_MAGIC @ seq_bytes @ CALIBRATION_PAYLOAD);
              packet = CALIBRATION_MAGIC @ seq_bytes @ CALIBRATION_PAYLOAD @ digest
          in (case pack_be16 (int (length packet)) of
                Inl e \<Rightarrow> Inl e
              | Inr length_bytes \<Rightarrow> Inr (length_bytes @ packet)))"

definition amplitude :: real where
  "amplitude = 6 / 10"

definition preamble :: "nat list" where
  "preamble = concat (replicate 16 [1, 0])"

definition byte_bits :: "byte \<Rightarrow> nat list" where
  "byte_bits byte = map (\<lambda>b. unat (drop_bit b byte AND 1)) [7, 6, 5, 4, 3, 2, 1, 0]"

definition frame_bits :: "byte list \<Rightarrow> nat list" where
  "frame_bits data =
     preamble @ concat (map (\<lambda>byte. [0] @ byte_bits byte @ [1]) data) @ replicate 16 1"

text \<open>
  The two nested loops of the modulator. \<open>emit_bit\<close> is the inner loop over the samples of one
  bit: it emits \<open>amplitude * sin phase\<close> and advances the phase, and returns the phase it
  ends with. \<open>synth\<close> is the outer loop over the bits; the phase is threaded through and
  starts at 0 in \<open>modulate_afsk_ultrasonic\<close>. The array is \<open>float32\<close> in the source; the
  model keeps the exact value.
\<close>

fun emit_bit :: "real \<Rightarrow> nat \<Rightarrow> real \<Rightarrow> real list \<times> real" where
  "emit_bit phase_inc 0 phase = ([], phase)"
| "emit_bit phase_inc (Suc s) phase =
     (let (rest, phase') = emit_bit phase_inc s (phase + phase_inc)
      in (amplitude * sin phase # rest, phase'))"

fun synth :: "real \<Rightarrow> real \<Rightarrow> int \<Rightarrow> nat \<Rightarrow> nat list \<Rightarrow> real \<Rightarrow> real list" where
  "synth freq0 freq1 sample_rate samples_per_bit [] phase = []"
| "synth freq0 freq1 sample_rate samples_per_bit (b # bits) phase =
     (let freq = (if b = 0 then freq0 else freq1);
          phase_inc = 2 * pi * freq / of_int sample_rate;
          (chunk, phase') = emit_bit phase_inc samples_per_bit phase
      in chunk @ synth freq0 freq1 sample_rate samples_per_bit bits phase')"

definition modulate_afsk_ultrasonic ::
  "byte list \<Rightarrow> real \<Rightarrow> real \<Rightarrow> int \<Rightarrow> int \<Rightarrow> py_error + real list" where
  "modulate_afsk_ultrasonic data freq0 freq1 sample_rate baud =
     (if baud = 0 then Inl ZeroDivisionError
      else
        let samples_per_bit = py_int (of_int sample_rate / of_int baud);
            bits = frame_bits data;
            total_samples = int (length bits) * samples_per_bit
        in if total_samples < 0 then Inl NegativeDimensions
           else if sample_rate = 0 then Inl ZeroDivisionError
           else Inr (synth freq0 freq1 sample_rate (nat samples_per_bit) bits 0))"

text \<open>
  \<open>main\<close>: the parsed arguments, whether \<open>sounddevice\<close> was imported, and what the run
  does with the samples. The report carries the entries of the JSON result that depend on the
  computation; writing the WAV file and playing are effects that are assumed not to fail.
\<close>

record send_args =
  arg_freq0 :: real
  arg_freq1 :: real
  arg_baud :: int
  arg_sample_rate :: int
  arg_packets :: int
  arg_gap_ms :: real
  arg_output :: "string option"

datatype send_error =
    NyquistViolation int real
  | NoOutputDevice
  | Raised py_error

datatype send_effect =
    NoSamples
  | WroteWav string "real list" int
  | Played "real list" int

record send_report =
  success :: bool
  error :: "send_error option"
  packet_size_bytes :: "nat option"
  total_samples :: "nat option"
  total_duration_s :: "real option"

definition gap_samples :: "int \<Rightarrow> real \<Rightarrow> py_error + real list" where
  "gap_samples sample_rate gap_ms =
     (let n = py_int (of_int sample_rate * gap_ms / 1000)
      in if n < 0 then Inl NegativeDimensions else Inr (replicate (nat n) 0))"

fun send_loop ::
  "(byte list \<Rightarrow> byte list) \<Rightarrow> send_args \<Rightarrow> real list \<Rightarrow> int list \<Rightarrow> real list \<times> nat list
     \<Rightarrow> py_error + real list \<times> nat list" where
  "send_loop sha256 args gap [] acc = Inr acc"
| "send_loop sha256 args gap (sq # rest) (all_samples, packet_sizes) =
     (case generate_calibration_packet sha256 sq of
        Inl e \<Rightarrow> Inl e
      | Inr packet \<Rightarrow>
          (case modulate_afsk_ultrasonic packet (arg_freq0 args) (arg_freq1 args)
                  (arg_sample_rate args) (arg_baud args) of
             Inl e \<Rightarrow> Inl e
           | Inr modulated \<Rightarrow>
               send_loop sha256 args gap rest
                 (all_samples @ modulated @ gap, packet_sizes @ [length packet])))"

definition send_failed :: "send_error \<Rightarrow> send_report" where
  "send_failed e = \<lparr>success = False, error = Some e, packet_size_bytes = None,
     total_samples = None, total_duration_s = None\<rparr>"

definition send_main ::
  "(byte list \<Rightarrow> byte list) \<Rightarrow> bool \<Rightarrow> send_args \<Rightarrow> send_report \<times> send_effect" where
  "send_main sha256 sd_available args =
     (let max_freq = max (arg_freq0 args) (arg_freq1 args)
      in if of_int (arg_sample_rate args) < max_freq * 2 then
           (send_failed (NyquistViolation (arg_sample_rate args) max_freq), NoSamples)
         else
           (case gap_samples (arg_sample_rate args) (arg_gap_ms args) of
              Inl e \<Rightarrow> (send_failed (Raised e), NoSamples)
            | Inr gap \<Rightarrow>
                (case send_loop sha256 args gap (map int [0 ..< nat (arg_packets args)]) ([], []) of
                   Inl e \<Rightarrow> (send_failed (Raised e), NoSamples)
                 | Inr (all_samples, packet_sizes) \<Rightarrow>
                     if arg_sample_rate args = 0 then
                       (send_failed (Raised ZeroDivisionError), NoSamples)
                     else if packet_sizes = [] then
                       (send_failed (Raised IndexError), NoSamples)
                     else
                       let report = \<lparr>success = True, error = None,
                             packet_size_bytes = Some (hd packet_sizes),
                             total_samples = Some (length all_samples),
                             total_duration_s = Some (py_round 3
                               (of_nat (length all_samples) / of_int (arg_sample_rate args)))\<rparr>
                       in (case arg_output args of
                             Some path \<Rightarrow> (report, WroteWav path all_samples (arg_sample_rate args))
                           | None \<Rightarrow>
                               if sd_available then (report, Played all_samples (arg_sample_rate args))
                               else (report\<lparr>success := False, error := Some NoOutputDevice\<rparr>,
                                     NoSamples)))))"


section \<open>The oscillator in closed form\<close>

definition carrier_inc :: "real \<Rightarrow> real \<Rightarrow> int \<Rightarrow> nat \<Rightarrow> real" where
  "carrier_inc freq0 freq1 sample_rate b =
     2 * pi * (if b = 0 then freq0 else freq1) / of_int sample_rate"

definition phase_incs :: "real \<Rightarrow> real \<Rightarrow> int \<Rightarrow> nat \<Rightarrow> nat list \<Rightarrow> real list" where
  "phase_incs freq0 freq1 sample_rate samples_per_bit bits =
     concat (map (\<lambda>b. replicate samples_per_bit (carrier_inc freq0 freq1 sample_rate b)) bits)"

definition phase_at :: "real \<Rightarrow> real \<Rightarrow> int \<Rightarrow> nat \<Rightarrow> nat list \<Rightarrow> nat \<Rightarrow> real" where
  "phase_at freq0 freq1 sample_rate samples_per_bit bits k =
     sum_list (take k (phase_incs freq0 freq1 sample_rate samples_per_bit bits))"

lemma emit_bit_closed:
  "emit_bit phase_inc n phase =
     (map (\<lambda>k. amplitude * sin (phase + of_nat k * phase_inc)) [0 ..< n],
      phase + of_nat n * phase_inc)"
proof (induction n arbitrary: phase)
  case 0
  show ?case by simp
next
  case (Suc n)
  have "map (\<lambda>k. amplitude * sin (phase + of_nat k * phase_inc)) [0 ..< Suc n]
      = amplitude * sin phase
        # map (\<lambda>k. amplitude * sin (phase + phase_inc + of_nat k * phase_inc)) [0 ..< n]"
    by (simp add: upt_conv_Cons map_Suc_upt [symmetric] algebra_simps del: upt_Suc)
  then show ?case
    by (simp add: Suc.IH algebra_simps del: upt_Suc)
qed


lemma synth_closed:
  "synth freq0 freq1 sample_rate spb bits phase =
     map (\<lambda>k. amplitude * sin (phase + phase_at freq0 freq1 sample_rate spb bits k))
       [0 ..< length bits * spb]"
proof (induction bits arbitrary: phase)
  case Nil
  show ?case by simp
next
  case (Cons b bits)
  let ?inc = "carrier_inc freq0 freq1 sample_rate b"
  let ?rest = "phase_incs freq0 freq1 sample_rate spb bits"
  have incs: "phase_incs freq0 freq1 sample_rate spb (b # bits) = replicate spb ?inc @ ?rest"
    by (simp add: phase_incs_def)
  have low: "phase_at freq0 freq1 sample_rate spb (b # bits) k = of_nat k * ?inc"
    if "k < spb" for k
    using that by (simp add: phase_at_def incs min_def sum_list_replicate)
  have high: "phase_at freq0 freq1 sample_rate spb (b # bits) (spb + k)
      = of_nat spb * ?inc + phase_at freq0 freq1 sample_rate spb bits k" for k
    by (simp add: phase_at_def incs sum_list_replicate)
  have split: "[0 ..< length (b # bits) * spb] = [0 ..< spb] @ map (\<lambda>k. spb + k) [0 ..< length bits * spb]"
  proof -
    have "[0 ..< spb + length bits * spb] = [0 ..< spb] @ [spb ..< spb + length bits * spb]"
      by (rule upt_add_eq_append) simp
    moreover have "[spb ..< spb + length bits * spb] = map (\<lambda>k. spb + k) [0 ..< length bits * spb]"
      using map_add_upt [of spb "length bits * spb"] by (simp add: add.commute)
    ultimately show ?thesis by simp
  qed
  have first: "map (\<lambda>k. amplitude * sin (phase + phase_at freq0 freq1 sample_rate spb (b # bits) k)) [0 ..< spb]
      = map (\<lambda>k. amplitude * sin (phase + of_nat k * ?inc)) [0 ..< spb]"
    by (rule map_cong) (simp_all add: low)
  have step: "synth freq0 freq1 sample_rate spb (b # bits) phase
      = map (\<lambda>k. amplitude * sin (phase + of_nat k * ?inc)) [0 ..< spb]
        @ synth freq0 freq1 sample_rate spb bits (phase + of_nat spb * ?inc)"
    by (simp add: emit_bit_closed carrier_inc_def)
  show ?case
    unfolding step split map_append first Cons.IH
    by (simp add: high o_def add.assoc)
qed


declare synth.simps [simp del] emit_bit.simps [simp del]

lemma length_synth:
  "length (synth freq0 freq1 sample_rate spb bits phase) = length bits * spb"
  by (simp add: synth_closed)







lemma length_concat_replicate: "length (concat (replicate n xs)) = n * length xs"
  by (induction n) simp_all

lemma length_frame_bits: "length (frame_bits data) = 48 + 10 * length data"
proof -
  have "length (concat (map (\<lambda>byte. [0] @ byte_bits byte @ [1]) data)) = 10 * length data"
    by (induction data) (simp_all add: byte_bits_def)
  then show ?thesis by (simp add: frame_bits_def preamble_def length_concat_replicate)
qed


lemma modulate_eval:
  assumes "baud \<noteq> 0" and "sample_rate \<noteq> 0"
    and "0 \<le> py_int (of_int sample_rate / of_int baud)"
  shows "modulate_afsk_ultrasonic data freq0 freq1 sample_rate baud
     = Inr (synth freq0 freq1 sample_rate
           (nat (py_int (of_int sample_rate / of_int baud))) (frame_bits data) 0)"
proof -
  from assms(3) have "\<not> int (length (frame_bits data)) * py_int (of_int sample_rate / of_int baud) < 0"
    by (simp add: mult_less_0_iff not_less)
  with assms show ?thesis
    by (simp add: modulate_afsk_ultrasonic_def Let_def)
qed




section \<open>The send pipeline\<close>

definition emitted :: "send_effect \<Rightarrow> real list" where
  "emitted eff = (case eff of NoSamples \<Rightarrow> [] | WroteWav path xs sr \<Rightarrow> xs | Played xs sr \<Rightarrow> xs)"

text \<open>A stand-in digest of the right length, for running the pipeline on concrete arguments.\<close>

definition zeros_digest :: "byte list \<Rightarrow> byte list" where
  "zeros_digest msg = replicate 32 0"

lemma send_loop_Inr:
  "send_loop sha256 args gap seqs (all_samples, sizes) = Inr (all_samples', sizes') \<Longrightarrow>
     \<exists>mods. list_all2 (\<lambda>sq m. \<exists>packet. generate_calibration_packet sha256 sq = Inr packet
                  \<and> modulate_afsk_ultrasonic packet (arg_freq0 args) (arg_freq1 args)
                        (arg_sample_rate args) (arg_baud args) = Inr m) seqs mods
       \<and> all_samples' = all_samples @ concat (map (\<lambda>m. m @ gap) mods)
       \<and> length sizes' = length sizes + length seqs"
proof (induction seqs arbitrary: all_samples sizes)
  case Nil
  then show ?case by simp
next
  case (Cons sq seqs)
  from Cons.prems obtain packet where g: "generate_calibration_packet sha256 sq = Inr packet"
    by (cases "generate_calibration_packet sha256 sq") simp_all
  from Cons.prems g obtain modulated where
    m: "modulate_afsk_ultrasonic packet (arg_freq0 args) (arg_freq1 args)
          (arg_sample_rate args) (arg_baud args) = Inr modulated"
    by (cases "modulate_afsk_ultrasonic packet (arg_freq0 args) (arg_freq1 args)
          (arg_sample_rate args) (arg_baud args)") simp_all
  from Cons.prems g m have
    "send_loop sha256 args gap seqs (all_samples @ modulated @ gap, sizes @ [length packet])
       = Inr (all_samples', sizes')"
    by simp
  from Cons.IH [OF this] obtain mods where
    r: "list_all2 (\<lambda>sq m. \<exists>packet. generate_calibration_packet sha256 sq = Inr packet
                  \<and> modulate_afsk_ultrasonic packet (arg_freq0 args) (arg_freq1 args)
                        (arg_sample_rate args) (arg_baud args) = Inr m) seqs mods"
      "all_samples' = (all_samples @ modulated @ gap) @ concat (map (\<lambda>m. m @ gap) mods)"
      "length sizes' = length (sizes @ [length packet]) + length seqs"
    by blast
  show ?case
  proof (intro exI [of _ "modulated # mods"] conjI)
    show "list_all2 (\<lambda>sq m. \<exists>packet. generate_calibration_packet sha256 sq = Inr packet
                  \<and> modulate_afsk_ultrasonic packet (arg_freq0 args) (arg_freq1 args)
                        (arg_sample_rate args) (arg_baud args) = Inr m) (sq # seqs) (modulated # mods)"
      using g m r(1) by simp
    show "all_samples' = all_samples @ concat (map (\<lambda>m. m @ gap) (modulated # mods))"
      using r(2) by simp
    show "length sizes' = length sizes + length (sq # seqs)"
      using r(3) by simp
  qed
qed

lemma length_concat_gaps:
  "length (concat (map (\<lambda>m. m @ replicate g (0::real)) mods))
     = sum_list (map length mods) + length mods * g"
  by (induction mods) simp_all

lemma send_main_success:
  assumes "send_main sha256 sd_available args = (rep, eff)" and "success rep"
  obtains gap all_samples sizes where
    "gap_samples (arg_sample_rate args) (arg_gap_ms args) = Inr gap"
    "send_loop sha256 args gap (map int [0 ..< nat (arg_packets args)]) ([], [])
       = Inr (all_samples, sizes)"
    "emitted eff = all_samples"
    "total_samples rep = Some (length all_samples)"
proof -
  from assms have ny: "\<not> of_int (arg_sample_rate args) < max (arg_freq0 args) (arg_freq1 args) * 2"
    by (auto simp: send_main_def Let_def send_failed_def)
  from assms ny obtain gap where
    gap: "gap_samples (arg_sample_rate args) (arg_gap_ms args) = Inr gap"
    by (cases "gap_samples (arg_sample_rate args) (arg_gap_ms args)")
       (auto simp: send_main_def Let_def send_failed_def)
  from assms ny gap obtain all_samples sizes where
    loop: "send_loop sha256 args gap (map int [0 ..< nat (arg_packets args)]) ([], [])
       = Inr (all_samples, sizes)"
    by (cases "send_loop sha256 args gap (map int [0 ..< nat (arg_packets args)]) ([], [])")
       (auto simp: send_main_def Let_def send_failed_def)
  from assms ny gap loop have "emitted eff = all_samples \<and> total_samples rep = Some (length all_samples)"
    by (auto simp: send_main_def Let_def send_failed_def emitted_def
        split: if_splits option.splits)
  with gap loop that show ?thesis by blast
qed


lemma generate_zeros_digest:
  "\<exists>packet. generate_calibration_packet zeros_digest 0 = Inr packet \<and> length packet = 58"
  by (simp add: generate_calibration_packet_def pack_be16_def zeros_digest_def
      CALIBRATION_MAGIC_def CALIBRATION_PAYLOAD_def Let_def)

lemma send_main_one_packet:
  assumes ny: "\<not> of_int sr < max f0 f1 * 2"
    and gap: "0 \<le> py_int (of_int sr * gap_ms / 1000)"
    and nz: "bd \<noteq> 0" "sr \<noteq> 0"
    and spb: "0 \<le> py_int (of_int sr / of_int bd)"
    and gen: "generate_calibration_packet sha256 0 = Inr packet"
  shows "emitted (snd (send_main sha256 True
           \<lparr>arg_freq0 = f0, arg_freq1 = f1, arg_baud = bd, arg_sample_rate = sr,
            arg_packets = 1, arg_gap_ms = gap_ms, arg_output = None\<rparr>))
         = synth f0 f1 sr (nat (py_int (of_int sr / of_int bd))) (frame_bits packet) 0
           @ replicate (nat (py_int (of_int sr * gap_ms / 1000))) 0"
    and "success (fst (send_main sha256 True
           \<lparr>arg_freq0 = f0, arg_freq1 = f1, arg_baud = bd, arg_sample_rate = sr,
            arg_packets = 1, arg_gap_ms = gap_ms, arg_output = None\<rparr>))"
proof -
  have m: "modulate_afsk_ultrasonic packet f0 f1 sr bd
     = Inr (synth f0 f1 sr (nat (py_int (of_int sr / of_int bd))) (frame_bits packet) 0)"
    using nz spb by (rule modulate_eval)
  have g: "gap_samples sr gap_ms = Inr (replicate (nat (py_int (of_int sr * gap_ms / 1000))) 0)"
    using gap by (simp add: gap_samples_def Let_def)
  have l: "send_loop sha256
       \<lparr>arg_freq0 = f0, arg_freq1 = f1, arg_baud = bd, arg_sample_rate = sr,
        arg_packets = 1, arg_gap_ms = gap_ms, arg_output = None\<rparr>
       (replicate (nat (py_int (of_int sr * gap_ms / 1000))) 0) [0] ([], [])
     = Inr (synth f0 f1 sr (nat (py_int (of_int sr / of_int bd))) (frame_bits packet) 0
           @ replicate (nat (py_int (of_int sr * gap_ms / 1000))) 0, [length packet])"
    by (simp add: gen m)
  show "emitted (snd (send_main sha256 True
           \<lparr>arg_freq0 = f0, arg_freq1 = f1, arg_baud = bd, arg_sample_rate = sr,
            arg_packets = 1, arg_gap_ms = gap_ms, arg_output = None\<rparr>))
         = synth f0 f1 sr (nat (py_int (of_int sr / of_int bd))) (frame_bits packet) 0
           @ replicate (nat (py_int (of_int sr * gap_ms / 1000))) 0"
    using ny nz by (simp add: send_main_def Let_def g gen m emitted_def)
  show "success (fst (send_main sha256 True
           \<lparr>arg_freq0 = f0, arg_freq1 = f1, arg_baud = bd, arg_sample_rate = sr,
            arg_packets = 1, arg_gap_ms = gap_ms, arg_output = None\<rparr>))"
    using ny nz by (simp add: send_main_def Let_def g gen m)
qed

text \<open>
  C5. When the sample rate is below twice the higher carrier, the send pipeline stops at the
  Nyquist check: it reports failure with the Nyquist error and no sample count, and neither
  plays nor writes any samples.
\<close>

theorem send_main_nyquist:
  assumes "of_int (arg_sample_rate args) < 2 * max (arg_freq0 args) (arg_freq1 args)"
  shows "send_main sha256 sd_available args
     = (\<lparr>success = False,
         error = Some (NyquistViolation (arg_sample_rate args)
                         (max (arg_freq0 args) (arg_freq1 args))),
         packet_size_bytes = None, total_samples = None, total_duration_s = None\<rparr>,
        NoSamples)"
  using assms by (simp add: send_main_def Let_def send_failed_def mult.commute)

theorem send_main_nyquist_witness:
  "real_of_int 32000 < 2 * max 18000 20000
   \<and> send_main zeros_digest True
       \<lparr>arg_freq0 = 18000, arg_freq1 = 20000, arg_baud = 150, arg_sample_rate = 32000,
        arg_packets = 10, arg_gap_ms = 200, arg_output = Some ''calibration.wav''\<rparr>
     = (\<lparr>success = False, error = Some (NyquistViolation 32000 20000),
         packet_size_bytes = None, total_samples = None, total_duration_s = None\<rparr>,
        NoSamples)"
  using send_main_nyquist [of "\<lparr>arg_freq0 = 18000, arg_freq1 = 20000, arg_baud = 150,
        arg_sample_rate = 32000, arg_packets = 10, arg_gap_ms = 200,
        arg_output = Some ''calibration.wav''\<rparr>" zeros_digest True]
  by simp

text \<open>
  Against C6 as stated: at 44100 Hz with a 16 ms gap the product is 705.6 samples; the gap
  buffer has 705 zeros, where rounding gives 706. With a single packet, so with no two
  consecutive packets, the output still ends with that gap.
\<close>

theorem gap_truncates_counterexample:
  "gap_samples 44100 16 = Inr (replicate 705 0)
   \<and> round (real_of_int 44100 * 16 / 1000) = 706
   \<and> length (emitted (snd (send_main zeros_digest True
        \<lparr>arg_freq0 = 18000, arg_freq1 = 20000, arg_baud = 150, arg_sample_rate = 44100,
         arg_packets = 1, arg_gap_ms = 16, arg_output = None\<rparr>)))
      = 628 * 294 + 705"
proof -
  obtain packet where p: "generate_calibration_packet zeros_digest 0 = Inr packet"
    and lp: "length packet = 58"
    using generate_zeros_digest by blast
  have g: "py_int (real_of_int 44100 * 16 / 1000) = 705" by (simp add: py_int_def)
  have b: "py_int (real_of_int 44100 / real_of_int 150) = 294" by (simp add: py_int_def)
  have "emitted (snd (send_main zeros_digest True
        \<lparr>arg_freq0 = 18000, arg_freq1 = 20000, arg_baud = 150, arg_sample_rate = 44100,
         arg_packets = 1, arg_gap_ms = 16, arg_output = None\<rparr>))
      = synth 18000 20000 44100 (nat (py_int (real_of_int 44100 / real_of_int 150)))
          (frame_bits packet) 0
        @ replicate (nat (py_int (real_of_int 44100 * 16 / 1000))) 0"
    by (rule send_main_one_packet(1) [OF _ _ _ _ _ p]) (simp_all add: py_int_def)
  then have "length (emitted (snd (send_main zeros_digest True
        \<lparr>arg_freq0 = 18000, arg_freq1 = 20000, arg_baud = 150, arg_sample_rate = 44100,
         arg_packets = 1, arg_gap_ms = 16, arg_output = None\<rparr>)))
      = 628 * 294 + 705"
    unfolding g b by (simp add: length_synth length_frame_bits lp)
  moreover have "gap_samples 44100 16 = Inr (replicate 705 0)"
    using g by (simp add: gap_samples_def Let_def)
  moreover have "round (real_of_int 44100 * 16 / 1000) = 706"
    by (simp add: round_def)
  ultimately show ?thesis by (intro conjI)
qed

text \<open>
  C6, amended. In every successful transmission the gap buffer consists of exactly
  \<open>int(sample_rate * gap_ms / 1000)\<close> zero samples, the product truncated and not rounded; the
  single output buffer is the concatenation, over the packets in order, of the packet's
  modulated samples followed by one gap (so a gap also follows the last packet); and its
  length is the sum of all per-packet sample counts plus one gap length per packet.
\<close>

theorem send_main_buffer:
  assumes "send_main sha256 sd_available args = (rep, eff)" and "success rep"
  shows "\<exists>mods.
      list_all2 (\<lambda>sq m. \<exists>packet. generate_calibration_packet sha256 sq = Inr packet
                  \<and> modulate_afsk_ultrasonic packet (arg_freq0 args) (arg_freq1 args)
                        (arg_sample_rate args) (arg_baud args) = Inr m)
        (map int [0 ..< nat (arg_packets args)]) mods
      \<and> length mods = nat (arg_packets args)
      \<and> 0 \<le> py_int (of_int (arg_sample_rate args) * arg_gap_ms args / 1000)
      \<and> emitted eff
          = concat (map (\<lambda>m. m @ replicate
              (nat (py_int (of_int (arg_sample_rate args) * arg_gap_ms args / 1000))) 0) mods)
      \<and> length (emitted eff)
          = sum_list (map length mods)
            + length mods * nat (py_int (of_int (arg_sample_rate args) * arg_gap_ms args / 1000))
      \<and> total_samples rep = Some (length (emitted eff))"
proof -
  let ?n = "py_int (of_int (arg_sample_rate args) * arg_gap_ms args / 1000)"
  from assms obtain gap all_samples sizes where
    gap: "gap_samples (arg_sample_rate args) (arg_gap_ms args) = Inr gap"
    and loop: "send_loop sha256 args gap (map int [0 ..< nat (arg_packets args)]) ([], [])
       = Inr (all_samples, sizes)"
    and em: "emitted eff = all_samples"
    and tot: "total_samples rep = Some (length all_samples)"
    by (rule send_main_success)
  from gap have n: "0 \<le> ?n" and g: "gap = replicate (nat ?n) 0"
    by (auto simp: gap_samples_def Let_def split: if_splits)
  from send_loop_Inr [OF loop] obtain mods where
    la: "list_all2 (\<lambda>sq m. \<exists>packet. generate_calibration_packet sha256 sq = Inr packet
                  \<and> modulate_afsk_ultrasonic packet (arg_freq0 args) (arg_freq1 args)
                        (arg_sample_rate args) (arg_baud args) = Inr m)
        (map int [0 ..< nat (arg_packets args)]) mods"
    and al: "all_samples = [] @ concat (map (\<lambda>m. m @ gap) mods)"
    by blast
  from la have len: "length mods = nat (arg_packets args)"
    by (simp add: list_all2_lengthD [symmetric])
  have e: "emitted eff = concat (map (\<lambda>m. m @ replicate (nat ?n) 0) mods)"
    using em al g by simp
  have l: "length (emitted eff) = sum_list (map length mods) + length mods * nat ?n"
    unfolding e by (rule length_concat_gaps)
  from la len n e l tot em show ?thesis by blast
qed

theorem send_main_buffer_witness:
  "success (fst (send_main zeros_digest True
        \<lparr>arg_freq0 = 18000, arg_freq1 = 20000, arg_baud = 150, arg_sample_rate = 48000,
         arg_packets = 1, arg_gap_ms = 200, arg_output = None\<rparr>))
   \<and> (\<exists>mods. length mods = 1
        \<and> emitted (snd (send_main zeros_digest True
            \<lparr>arg_freq0 = 18000, arg_freq1 = 20000, arg_baud = 150, arg_sample_rate = 48000,
             arg_packets = 1, arg_gap_ms = 200, arg_output = None\<rparr>))
          = concat (map (\<lambda>m. m @ replicate 9600 0) mods)
        \<and> length (emitted (snd (send_main zeros_digest True
            \<lparr>arg_freq0 = 18000, arg_freq1 = 20000, arg_baud = 150, arg_sample_rate = 48000,
             arg_packets = 1, arg_gap_ms = 200, arg_output = None\<rparr>)))
          = sum_list (map length mods) + length mods * 9600)"
proof -
  let ?args = "\<lparr>arg_freq0 = 18000, arg_freq1 = 20000, arg_baud = 150, arg_sample_rate = 48000,
         arg_packets = 1, arg_gap_ms = 200, arg_output = None\<rparr>"
  obtain packet where p: "generate_calibration_packet zeros_digest 0 = Inr packet"
    using generate_zeros_digest by blast
  have s: "success (fst (send_main zeros_digest True ?args))"
    by (rule send_main_one_packet(2) [OF _ _ _ _ _ p]) (simp_all add: py_int_def)
  have c: "send_main zeros_digest True ?args
      = (fst (send_main zeros_digest True ?args), snd (send_main zeros_digest True ?args))"
    by simp
  have g: "nat (py_int (real_of_int (arg_sample_rate ?args) * arg_gap_ms ?args / 1000)) = 9600"
    by (simp add: py_int_def)
  from send_main_buffer [OF c s] obtain mods where
    "length mods = nat (arg_packets ?args)"
    "emitted (snd (send_main zeros_digest True ?args))
       = concat (map (\<lambda>m. m @ replicate
           (nat (py_int (of_int (arg_sample_rate ?args) * arg_gap_ms ?args / 1000))) 0) mods)"
    "length (emitted (snd (send_main zeros_digest True ?args)))
       = sum_list (map length mods)
         + length mods * nat (py_int (of_int (arg_sample_rate ?args) * arg_gap_ms ?args / 1000))"
    by blast
  then have "length mods = 1
        \<and> emitted (snd (send_main zeros_digest True ?args))
          = concat (map (\<lambda>m. m @ replicate 9600 0) mods)
        \<and> length (emitted (snd (send_main zeros_digest True ?args)))
          = sum_list (map length mods) + length mods * 9600"
    unfolding g by simp
  with s show ?thesis by blast
qed






section \<open>WAV input: the two readers\<close>

text \<open>
  \<open>recv.py\<close> and \<open>analyze.py\<close> each have a \<open>read_wav\<close>. The file is the list of its
  bytes; \<open>read_bytes n\<close> is \<open>f.read(n)\<close>, returning what was read and what is left.
  \<open>unpack_le\<close> is \<open>struct.unpack\<close> with a little-endian format of the given size, which
  raises on a buffer of another length. \<open>np.frombuffer\<close> reads little-endian two's
  complement values and raises when the buffer is not a whole number of elements. Opening
  the file is assumed to succeed.
\<close>

definition read_bytes :: "nat \<Rightarrow> byte list \<Rightarrow> byte list \<times> byte list" where
  "read_bytes n f = (take n f, drop n f)"

definition le_value :: "byte list \<Rightarrow> nat" where
  "le_value bs = foldr (\<lambda>b acc. unat b + 256 * acc) bs 0"

definition unpack_le :: "nat \<Rightarrow> byte list \<Rightarrow> py_error + nat" where
  "unpack_le n bs = (if length bs = n then Inr (le_value bs) else Inl StructError)"

definition str_bytes :: "string \<Rightarrow> byte list" where
  "str_bytes s = map of_char s"

fun int16_values :: "byte list \<Rightarrow> int list" where
  "int16_values (lo # hi # rest) =
     (let u = int (unat lo) + 256 * int (unat hi)
      in (if u < 32768 then u else u - 65536) # int16_values rest)"
| "int16_values rest = []"

fun int32_values :: "byte list \<Rightarrow> int list" where
  "int32_values (b0 # b1 # b2 # b3 # rest) =
     (let u = int (unat b0) + 256 * int (unat b1) + 65536 * int (unat b2)
              + 16777216 * int (unat b3)
      in (if u < 2147483648 then u else u - 4294967296) # int32_values rest)"
| "int32_values rest = []"

definition frombuffer_int16 :: "byte list \<Rightarrow> py_error + real list" where
  "frombuffer_int16 data =
     (if length data mod 2 \<noteq> 0 then Inl BufferSize
      else Inr (map (\<lambda>v. of_int v / 32768) (int16_values data)))"

definition frombuffer_int32 :: "byte list \<Rightarrow> py_error + real list" where
  "frombuffer_int32 data =
     (if length data mod 4 \<noteq> 0 then Inl BufferSize
      else Inr (map (\<lambda>v. of_int v / 2147483648) (int32_values data)))"

subsection \<open>recv.py\<close>

text \<open>The \<open>while True\<close> loop over the chunks, with the three variables it updates.\<close>

function recv_chunks ::
  "byte list \<Rightarrow> nat \<times> nat \<times> byte list \<Rightarrow> py_error + nat \<times> nat \<times> byte list" where
  "recv_chunks f (sample_rate, bits_per_sample, data) =
     (let (chunk_id, f1) = read_bytes 4 f
      in if length chunk_id < 4 then Inr (sample_rate, bits_per_sample, data)
         else
           let (size_bytes, f2) = read_bytes 4 f1
           in (case unpack_le 4 size_bytes of
                 Inl e \<Rightarrow> Inl e
               | Inr chunk_size \<Rightarrow>
                   if chunk_id = str_bytes ''fmt '' then
                     let (fmt_data, f3) = read_bytes chunk_size f2
                     in (case unpack_le 4 (slice fmt_data 4 8) of
                           Inl e \<Rightarrow> Inl e
                         | Inr sr \<Rightarrow>
                             (case unpack_le 2 (slice fmt_data 14 16) of
                                Inl e \<Rightarrow> Inl e
                              | Inr bps \<Rightarrow> recv_chunks f3 (sr, bps, data)))
                   else if chunk_id = str_bytes ''data'' then
                     let (d, f3) = read_bytes chunk_size f2
                     in recv_chunks f3 (sample_rate, bits_per_sample, d)
                   else
                     let (skipped, f3) = read_bytes chunk_size f2
                     in recv_chunks f3 (sample_rate, bits_per_sample, data)))"
  by pat_completeness auto
termination
  by (relation "measure (\<lambda>(f, st). length f)") (auto simp: read_bytes_def)

declare recv_chunks.simps [simp del]

definition recv_read_wav :: "byte list \<Rightarrow> py_error + real list \<times> nat" where
  "recv_read_wav f =
     (let (riff, f1) = read_bytes 4 f
      in if riff \<noteq> str_bytes ''RIFF'' then Inl NotWav
         else
           let (file_size, f2) = read_bytes 4 f1;
               (wave, f3) = read_bytes 4 f2
           in (case recv_chunks f3 (48000, 16, []) of
                 Inl e \<Rightarrow> Inl e
               | Inr (sample_rate, bits_per_sample, data) \<Rightarrow>
                   if bits_per_sample = 16 then
                     (case frombuffer_int16 data of
                        Inl e \<Rightarrow> Inl e
                      | Inr samples \<Rightarrow> Inr (samples, sample_rate))
                   else Inl (UnsupportedBits bits_per_sample)))"

subsection \<open>analyze.py\<close>

function analyze_chunks ::
  "byte list \<Rightarrow> nat \<times> nat \<times> nat \<times> byte list \<Rightarrow> py_error + nat \<times> nat \<times> nat \<times> byte list" where
  "analyze_chunks f (sample_rate, channels, bits_per_sample, data) =
     (let (chunk_id, f1) = read_bytes 4 f
      in if length chunk_id < 4 then Inr (sample_rate, channels, bits_per_sample, data)
         else
           let (size_bytes, f2) = read_bytes 4 f1
           in (case unpack_le 4 size_bytes of
                 Inl e \<Rightarrow> Inl e
               | Inr chunk_size \<Rightarrow>
                   if chunk_id = str_bytes ''fmt '' then
                     let (fmt_data, f3) = read_bytes chunk_size f2
                     in (case unpack_le 2 (slice fmt_data 0 2) of
                           Inl e \<Rightarrow> Inl e
                         | Inr audio_format \<Rightarrow>
                         (case unpack_le 2 (slice fmt_data 2 4) of
                           Inl e \<Rightarrow> Inl e
                         | Inr ch \<Rightarrow>
                         (case unpack_le 4 (slice fmt_data 4 8) of
                           Inl e \<Rightarrow> Inl e
                         | Inr sr \<Rightarrow>
                         (case unpack_le 2 (slice fmt_data 14 16) of
                           Inl e \<Rightarrow> Inl e
                         | Inr bps \<Rightarrow> analyze_chunks f3 (sr, ch, bps, data)))))
                   else if chunk_id = str_bytes ''data'' then
                     let (d, f3) = read_bytes chunk_size f2
                     in analyze_chunks f3 (sample_rate, channels, bits_per_sample, d)
                   else
                     let (skipped, f3) = read_bytes chunk_size f2
                     in analyze_chunks f3 (sample_rate, channels, bits_per_sample, data)))"
  by pat_completeness auto
termination
  by (relation "measure (\<lambda>(f, st). length f)") (auto simp: read_bytes_def)

declare analyze_chunks.simps [simp del]

text \<open>\<open>samples.reshape(-1, channels)[:, 0]\<close>, for a length that is a multiple of \<open>channels\<close>.\<close>

fun first_channel :: "nat \<Rightarrow> real list \<Rightarrow> real list" where
  "first_channel channels [] = []"
| "first_channel channels (x # xs) = x # first_channel channels (drop (channels - 1) xs)"

definition analyze_read_wav :: "byte list \<Rightarrow> py_error + real list \<times> nat \<times> nat" where
  "analyze_read_wav f =
     (let (riff, f1) = read_bytes 4 f
      in if riff \<noteq> str_bytes ''RIFF'' then Inl NotWav
         else
           let (file_size, f2) = read_bytes 4 f1;
               (wave, f3) = read_bytes 4 f2
           in if wave \<noteq> str_bytes ''WAVE'' then Inl NotWav
              else
                (case analyze_chunks f3 (44100, 1, 16, []) of
                   Inl e \<Rightarrow> Inl e
                 | Inr (sample_rate, channels, bits_per_sample, data) \<Rightarrow>
                     if data = [] then Inl NoAudioData
                     else
                       (case (if bits_per_sample = 16 then frombuffer_int16 data
                              else if bits_per_sample = 32 then frombuffer_int32 data
                              else Inl (UnsupportedBits bits_per_sample)) of
                          Inl e \<Rightarrow> Inl e
                        | Inr samples \<Rightarrow>
                            if channels > 1 then
                              (if length samples mod channels \<noteq> 0 then Inl ReshapeError
                               else Inr (first_channel channels samples, sample_rate, channels))
                            else Inr (samples, sample_rate, channels))))"


section \<open>recv.py: the demodulator and the receive pipeline\<close>

text \<open>
  \<open>goertzel_loop\<close> is the recurrence over the samples of a window, \<open>slice_bits\<close> the loop
  over the bit windows, \<open>uart_loop\<close> the \<open>while\<close> loop that reframes the bits into bytes,
  with \<open>byte_val\<close> its inner loop over the eight data bits.
\<close>

fun goertzel_loop :: "real \<Rightarrow> real list \<Rightarrow> real \<times> real \<Rightarrow> real \<times> real" where
  "goertzel_loop coeff [] (s1, s2) = (s1, s2)"
| "goertzel_loop coeff (sample # samples) (s1, s2) =
     goertzel_loop coeff samples (sample + coeff * s1 - s2, s1)"

definition goertzel :: "real list \<Rightarrow> real \<Rightarrow> int \<Rightarrow> py_error + real" where
  "goertzel samples target_freq sample_rate =
     (let n = length samples
      in if sample_rate = 0 then Inl ZeroDivisionError
         else
           let k = py_int (1 / 2 + of_nat n * target_freq / of_int sample_rate)
           in if n = 0 then Inl ZeroDivisionError
              else
                let w = 2 * pi * of_int k / of_nat n;
                    coeff = 2 * cos w;
                    (s1, s2) = goertzel_loop coeff samples (0, 0);
                    power = s1 * s1 + s2 * s2 - coeff * s1 * s2
                in Inr (power / of_nat (n * n)))"

fun slice_bits ::
  "real list \<Rightarrow> real \<Rightarrow> real \<Rightarrow> int \<Rightarrow> nat \<Rightarrow> nat list \<Rightarrow> py_error + nat list" where
  "slice_bits samples freq0 freq1 sample_rate samples_per_bit [] = Inr []"
| "slice_bits samples freq0 freq1 sample_rate samples_per_bit (i # rest) =
     (let start = i * samples_per_bit;
          chunk = slice samples start (start + samples_per_bit)
      in (case goertzel chunk freq0 sample_rate of
            Inl e \<Rightarrow> Inl e
          | Inr p0 \<Rightarrow>
              (case goertzel chunk freq1 sample_rate of
                 Inl e \<Rightarrow> Inl e
               | Inr p1 \<Rightarrow>
                   (case slice_bits samples freq0 freq1 sample_rate samples_per_bit rest of
                      Inl e \<Rightarrow> Inl e
                    | Inr bits \<Rightarrow> Inr ((if p0 > p1 then 0 else 1) # bits)))))"

definition byte_val :: "nat list \<Rightarrow> nat \<Rightarrow> nat" where
  "byte_val bits i = foldl (\<lambda>v b. push_bit 1 v OR bits ! (i + 1 + b)) 0 [0 ..< 8]"

function uart_loop :: "nat list \<Rightarrow> nat \<Rightarrow> byte list \<Rightarrow> byte list" where
  "uart_loop bits i raw_bytes =
     (if i < length bits then
        (if bits ! i = 0 then
           (if i + 9 \<ge> length bits then raw_bytes
            else if bits ! (i + 9) = 1 then
              uart_loop bits (i + 10) (raw_bytes @ [of_nat (byte_val bits i)])
            else uart_loop bits (i + 1) raw_bytes)
         else uart_loop bits (i + 1) raw_bytes)
      else raw_bytes)"
  by pat_completeness auto
termination
  by (relation "measure (\<lambda>(bits, i, raw_bytes). length bits - i)") auto

declare uart_loop.simps [simp del]

definition demodulate_afsk ::
  "real list \<Rightarrow> real \<Rightarrow> real \<Rightarrow> int \<Rightarrow> int \<Rightarrow> py_error + byte list" where
  "demodulate_afsk samples freq0 freq1 sample_rate baud =
     (if baud = 0 then Inl ZeroDivisionError
      else
        let samples_per_bit = py_int (of_int sample_rate / of_int baud)
        in if samples_per_bit = 0 then Inl ZeroDivisionError
           else
             let num_bits = int (length samples) div samples_per_bit
             in (case slice_bits samples freq0 freq1 sample_rate (nat samples_per_bit)
                       [0 ..< nat num_bits] of
                   Inl e \<Rightarrow> Inl e
                 | Inr bits \<Rightarrow> Inr (uart_loop bits 0 [])))"

text \<open>
  \<open>main\<close>: the samples come from the WAV file given as input, or from a live recording, or
  there is neither a file nor a sound device.
\<close>

record recv_args =
  rarg_freq0 :: real
  rarg_freq1 :: real
  rarg_baud :: int
  rarg_sample_rate :: int
  rarg_expected :: int

datatype recv_source = InputFile "byte list" | LiveRecording "real list" | NoSource

datatype recv_outcome = RecvFailed py_error | RecvNoDevice | RecvDone nat recv_report

definition recv_decode ::
  "(byte list \<Rightarrow> byte list) \<Rightarrow> recv_args \<Rightarrow> real list \<Rightarrow> int \<Rightarrow> recv_outcome" where
  "recv_decode sha256 args samples sample_rate =
     (case demodulate_afsk samples (rarg_freq0 args) (rarg_freq1 args) sample_rate
             (rarg_baud args) of
        Inl e \<Rightarrow> RecvFailed e
      | Inr raw_data \<Rightarrow>
          RecvDone (length raw_data)
            (per_report (rarg_expected args) (extract_packets sha256 raw_data)))"

definition recv_main ::
  "(byte list \<Rightarrow> byte list) \<Rightarrow> recv_source \<Rightarrow> recv_args \<Rightarrow> recv_outcome" where
  "recv_main sha256 source args =
     (case source of
        InputFile f \<Rightarrow>
          (case recv_read_wav f of
             Inl e \<Rightarrow> RecvFailed e
           | Inr (samples, sample_rate) \<Rightarrow> recv_decode sha256 args samples (int sample_rate))
      | LiveRecording recording \<Rightarrow> recv_decode sha256 args recording (rarg_sample_rate args)
      | NoSource \<Rightarrow> RecvNoDevice)"

text \<open>A 36-byte WAV file: the RIFF header and a 16-byte \<open>fmt\<close> chunk, no \<open>data\<close> chunk.\<close>

definition header_only_wav :: "byte list" where
  "header_only_wav =
     str_bytes ''RIFF'' @ [0x1C, 0, 0, 0] @ str_bytes ''WAVE''
     @ str_bytes ''fmt '' @ [0x10, 0, 0, 0]
     @ [1, 0, 1, 0, 0x80, 0xBB, 0, 0, 0, 0x77, 1, 0, 2, 0, 0x10, 0]"

lemma recv_chunks_header_only:
  "recv_chunks (str_bytes ''fmt '' @ [0x10, 0, 0, 0]
     @ [1, 0, 1, 0, 0x80, 0xBB, 0, 0, 0, 0x77, 1, 0, 2, 0, 0x10, 0]) (48000, 16, [])
   = Inr (48000, 16, [])"
  by (simp add: recv_chunks.simps read_bytes_def unpack_le_def le_value_def str_bytes_def
      slice_def)


lemma length_int16_values: "length (int16_values data) = length data div 2"
  by (induction data rule: int16_values.induct) (simp_all add: Let_def)

lemma length_int32_values: "length (int32_values data) = length data div 4"
  by (induction data rule: int32_values.induct) (simp_all add: Let_def)

lemma frombuffer_int16_nonempty:
  assumes "frombuffer_int16 data = Inr samples" and "data \<noteq> []"
  shows "samples \<noteq> []"
proof -
  from assms(1) have e: "length data mod 2 = 0" and s: "length samples = length data div 2"
    by (auto simp: frombuffer_int16_def length_int16_values split: if_splits)
  from assms(2) have "0 < length data" by simp
  with e have "2 \<le> length data" by presburger
  with s show ?thesis by (cases samples) simp_all
qed

lemma frombuffer_int32_nonempty:
  assumes "frombuffer_int32 data = Inr samples" and "data \<noteq> []"
  shows "samples \<noteq> []"
proof -
  from assms(1) have e: "length data mod 4 = 0" and s: "length samples = length data div 4"
    by (auto simp: frombuffer_int32_def length_int32_values split: if_splits)
  from assms(2) have "0 < length data" by simp
  with e have "4 \<le> length data" by presburger
  with s show ?thesis by (cases samples) simp_all
qed

lemma first_channel_nonempty: "samples \<noteq> [] \<Longrightarrow> first_channel channels samples \<noteq> []"
  by (cases samples) simp_all

lemma analyze_read_wav_nonempty:
  assumes "analyze_read_wav f = Inr (samples, sample_rate, channels)"
  shows "samples \<noteq> []"
proof -
  from assms obtain sr ch bps data where
    c: "analyze_chunks (drop 12 f) (44100, 1, 16, []) = Inr (sr, ch, bps, data)"
    by (cases "analyze_chunks (drop 12 f) (44100, 1, 16, [])")
       (auto simp: analyze_read_wav_def read_bytes_def Let_def split: if_splits)
  from assms c have d: "data \<noteq> []"
    by (auto simp: analyze_read_wav_def read_bytes_def Let_def split: if_splits)
  from assms c d obtain raw where
    r: "(if bps = 16 then frombuffer_int16 data
         else if bps = 32 then frombuffer_int32 data
         else Inl (UnsupportedBits bps)) = Inr raw"
    and s: "samples = raw \<or> samples = first_channel ch raw"
    by (cases "if bps = 16 then frombuffer_int16 data
         else if bps = 32 then frombuffer_int32 data
         else Inl (UnsupportedBits bps)")
       (auto simp: analyze_read_wav_def read_bytes_def Let_def split: if_splits)
  from r d have "raw \<noteq> []"
    by (auto split: if_splits dest: frombuffer_int16_nonempty frombuffer_int32_nonempty)
  with s first_channel_nonempty [of raw ch] show ?thesis by auto
qed

text \<open>
  C7 at the failing input: a well-formed RIFF/WAVE file with a \<open>fmt\<close> chunk for 16-bit mono at
  48000 Hz and no \<open>data\<close> chunk. The reader of \<open>analyze.py\<close> raises its "no audio data" error;
  the reader of \<open>recv.py\<close> returns an empty sample array, and \<open>main\<close> goes on to demodulate
  it, finds no packet and reports a packet error rate of 1 as a successful measurement.
\<close>

theorem recv_read_wav_no_data_chunk:
  "analyze_read_wav header_only_wav = Inl NoAudioData
   \<and> recv_read_wav header_only_wav = Inr ([], 48000)
   \<and> recv_main sha256 (InputFile header_only_wav)
        \<lparr>rarg_freq0 = 18000, rarg_freq1 = 20000, rarg_baud = 150, rarg_sample_rate = 48000,
         rarg_expected = 10\<rparr>
      = RecvDone 0
          \<lparr>packets_found = 0, packets_intact = 0, packets_corrupted = 0, packets_lost = 10,
           per = 1, per_percent = 100, quality = ''poor''\<rparr>"
proof -
  have a: "analyze_chunks (str_bytes ''fmt '' @ [0x10, 0, 0, 0]
     @ [1, 0, 1, 0, 0x80, 0xBB, 0, 0, 0, 0x77, 1, 0, 2, 0, 0x10, 0]) (44100, 1, 16, [])
   = Inr (48000, 1, 16, [])"
    by (simp add: analyze_chunks.simps read_bytes_def unpack_le_def le_value_def str_bytes_def
        slice_def)
  have 1: "analyze_read_wav header_only_wav = Inl NoAudioData"
    using a by (simp add: analyze_read_wav_def header_only_wav_def read_bytes_def str_bytes_def)
  have 2: "recv_read_wav header_only_wav = Inr ([], 48000)"
    using recv_chunks_header_only
    by (simp add: recv_read_wav_def header_only_wav_def read_bytes_def str_bytes_def
        frombuffer_int16_def)
  have d: "demodulate_afsk [] 18000 20000 48000 150 = Inr []"
    by (simp add: demodulate_afsk_def py_int_def uart_loop.simps)
  have e: "extract_packets sha256 [] = []"
    by (simp add: extract_packets_def extract_from.simps)
  have 3: "recv_main sha256 (InputFile header_only_wav)
        \<lparr>rarg_freq0 = 18000, rarg_freq1 = 20000, rarg_baud = 150, rarg_sample_rate = 48000,
         rarg_expected = 10\<rparr>
      = RecvDone 0
          \<lparr>packets_found = 0, packets_intact = 0, packets_corrupted = 0, packets_lost = 10,
           per = 1, per_percent = 100, quality = ''poor''\<rparr>"
    by (simp add: recv_main_def 2 recv_decode_def d e per_report_def py_round_def
        round_half_even_def Let_def)
  from 1 2 3 show ?thesis by (intro conjI)
qed

section \<open>analyze.py and sweep.py: band powers and SNR\<close>

text \<open>
  \<open>np.fft.rfft\<close> and \<open>np.fft.rfftfreq\<close> are library functions, given here by what they
  compute: the discrete Fourier transform at the bins \<open>0 .. n div 2\<close>, and the bin
  frequencies \<open>k / (n * d)\<close>. \<open>rfft\<close> raises on an empty array. \<open>band_mean\<close> is
  \<open>float(np.mean(fft_power[mask])) if np.any(mask) else dflt\<close>. \<open>np.log10\<close> of 0 is minus
  infinity, which \<open>NegInf\<close> stands for.

  \<open>analyze_spectrum\<close> holds the first lines of the function of that name, up to the
  local \<open>snr_db\<close>; \<open>sweep_spectrum\<close> holds the per-band power computation of \<open>run_sweep\<close>.
  \<open>analyze_result\<close> and \<open>sweep_result\<close> are the three entries as the two probes report them:
  rounded to 10 and to 6 decimals, the SNR to 2.
\<close>

definition rfft :: "real list \<Rightarrow> complex list" where
  "rfft samples =
     (let n = length samples
      in map (\<lambda>k. \<Sum>j<n. of_real (samples ! j) * cis (- 2 * pi * of_nat k * of_nat j / of_nat n))
           [0 ..< n div 2 + 1])"

definition rfftfreq :: "nat \<Rightarrow> real \<Rightarrow> real list" where
  "rfftfreq n d = map (\<lambda>k. of_nat k * (1 / (of_nat n * d))) [0 ..< n div 2 + 1]"

datatype db = NegInf | Db real

record band_powers =
  signal_power :: real
  noise_power :: real
  snr_db :: db

definition band_mean :: "(real \<Rightarrow> bool) \<Rightarrow> real list \<Rightarrow> real list \<Rightarrow> real \<Rightarrow> real" where
  "band_mean sel_mask fft_freqs fft_power dflt =
     (let sel = map snd (filter (\<lambda>x. sel_mask (fst x)) (zip fft_freqs fft_power))
      in if sel = [] then dflt else sum_list sel / of_nat (length sel))"

definition log10_db :: "real \<Rightarrow> db" where
  "log10_db r = (if r = 0 then NegInf else Db (10 * log 10 r))"

definition analyze_spectrum ::
  "real list \<Rightarrow> int \<Rightarrow> real \<Rightarrow> real \<Rightarrow> real \<Rightarrow> real \<Rightarrow> py_error + band_powers" where
  "analyze_spectrum samples sample_rate band_start band_end noise_band_start noise_band_end =
     (let n = length samples
      in if n = 0 then Inl EmptyFFT
         else if sample_rate = 0 then Inl ZeroDivisionError
         else
           let fft_data = rfft samples;
               fft_freqs = rfftfreq n (1 / of_int sample_rate);
               fft_magnitude = map (\<lambda>z. cmod z / of_nat n) fft_data;
               fft_power = map (\<lambda>m. m ^ 2) fft_magnitude;
               sp = band_mean (\<lambda>f. f \<ge> band_start \<and> f \<le> band_end) fft_freqs fft_power 0;
               np = band_mean (\<lambda>f. f \<ge> noise_band_start \<and> f \<le> noise_band_end)
                      fft_freqs fft_power (1 / 10 ^ 10)
           in Inr \<lparr>signal_power = sp, noise_power = np,
                   snr_db = log10_db (sp / max np (1 / 10 ^ 10))\<rparr>)"

definition sweep_spectrum ::
  "real list \<Rightarrow> int \<Rightarrow> real \<Rightarrow> real \<Rightarrow> py_error + band_powers" where
  "sweep_spectrum recording sample_rate start_freq end_freq =
     (let n = length recording
      in if n = 0 then Inl EmptyFFT
         else if sample_rate = 0 then Inl ZeroDivisionError
         else
           let fft_data = rfft recording;
               fft_freqs = rfftfreq n (1 / of_int sample_rate);
               fft_power = map (\<lambda>z. cmod z ^ 2) fft_data;
               sp = band_mean (\<lambda>f. f \<ge> start_freq \<and> f \<le> end_freq) fft_freqs fft_power 0;
               np = band_mean (\<lambda>f. f > 100 \<and> f < start_freq * (8 / 10))
                      fft_freqs fft_power (1 / 10 ^ 10)
           in Inr \<lparr>signal_power = sp, noise_power = np,
                   snr_db = log10_db (sp / max np (1 / 10 ^ 10))\<rparr>)"

definition round_db :: "nat \<Rightarrow> db \<Rightarrow> db" where
  "round_db ndigits v = (case v of NegInf \<Rightarrow> NegInf | Db x \<Rightarrow> Db (py_round ndigits x))"

definition analyze_result :: "band_powers \<Rightarrow> band_powers" where
  "analyze_result b = \<lparr>signal_power = py_round 10 (signal_power b),
     noise_power = py_round 10 (noise_power b), snr_db = round_db 2 (snr_db b)\<rparr>"

definition sweep_result :: "band_powers \<Rightarrow> band_powers" where
  "sweep_result b = \<lparr>signal_power = py_round 6 (signal_power b),
     noise_power = py_round 6 (noise_power b), snr_db = round_db 2 (snr_db b)\<rparr>"

lemma band_mean_scale:
  assumes "c \<noteq> 0"
  shows "band_mean sel_mask fs (map (\<lambda>p. c * p) ps) (c * d) = c * band_mean sel_mask fs ps d"
proof -
  have z: "zip fs (map (\<lambda>p. c * p) ps) = map (\<lambda>(f, p). (f, c * p)) (zip fs ps)"
    by (simp add: zip_map2)
  have sel: "map snd (filter (\<lambda>x. sel_mask (fst x)) (zip fs (map (\<lambda>p. c * p) ps)))
      = map (\<lambda>p. c * p) (map snd (filter (\<lambda>x. sel_mask (fst x)) (zip fs ps)))"
    unfolding z by (simp add: filter_map o_def case_prod_beta)
  show ?thesis
    unfolding band_mean_def sel Let_def
    by (simp add: sum_list_const_mult o_def)
qed

lemma band_mean_cong:
  assumes "\<And>f. f \<in> set fs \<Longrightarrow> sel_mask f = sel_mask2 f"
  shows "band_mean sel_mask fs ps d = band_mean sel_mask2 fs ps d"
proof -
  have "filter (\<lambda>x. sel_mask (fst x)) (zip fs ps) = filter (\<lambda>x. sel_mask2 (fst x)) (zip fs ps)"
    by (rule filter_cong) (auto dest: set_zip_leftD simp: assms)
  then show ?thesis by (simp add: band_mean_def)
qed

lemma band_mean_nonempty:
  assumes "\<exists>x \<in> set (zip fs ps). sel_mask (fst x)"
  shows "band_mean sel_mask fs ps d = band_mean sel_mask fs ps d'"
proof -
  from assms have "filter (\<lambda>x. sel_mask (fst x)) (zip fs ps) \<noteq> []"
    by (auto simp: filter_empty_conv)
  then show ?thesis by (simp add: band_mean_def)
qed


lemma length_rfft: "length (rfft samples) = length samples div 2 + 1"
  by (simp add: rfft_def Let_def)

lemma length_rfftfreq: "length (rfftfreq n d) = n div 2 + 1"
  by (simp add: rfftfreq_def)

lemma rfft_two: "rfft [1, - 1] = [0, 2]"
proof -
  have u: "[0 ..< 2 div 2 + 1] = [0, Suc 0]" by (simp add: upt_rec)
  have s: "{..<2::nat} = {0, Suc 0}" by auto
  have c: "cis (- pi) = - 1"
    by (simp add: complex_eq_iff)
  show ?thesis
    unfolding rfft_def Let_def
    by (simp add: u s c)
qed

lemma rfftfreq_two: "rfftfreq (Suc (Suc 0)) (1 / 40000) = [0, 20000]"
  by (simp add: rfftfreq_def)

text \<open>
  Against C8 as stated: on the two-sample recording \<open>[1, -1]\<close> at 40000 Hz the one bin above
  DC is at 20000 Hz with magnitude 2. With the band 17000 to 22000 Hz the analyzer's signal
  power is \<open>(2 / 2)\<^sup>2 = 1\<close> and the sweep's is \<open>2\<^sup>2 = 4\<close>. With the band starting at 25000 Hz
  the bin lies on the upper noise edge \<open>0.8 * 25000\<close>: the analyzer's noise band contains it
  (noise power 1), the sweep's does not (noise power at the floor \<open>10\<^sup>-\<^sup>1\<^sup>0\<close>).
\<close>

theorem sweep_spectrum_counterexample:
  "map_sum id signal_power (analyze_spectrum [1, - 1] 40000 17000 22000 100 (17000 * (8 / 10)))
     = Inr 1
   \<and> map_sum id signal_power (sweep_spectrum [1, - 1] 40000 17000 22000) = Inr 4
   \<and> map_sum id noise_power (analyze_spectrum [1, - 1] 40000 25000 30000 100 (25000 * (8 / 10)))
     = Inr 1
   \<and> map_sum id noise_power (sweep_spectrum [1, - 1] 40000 25000 30000) = Inr (1 / 10 ^ 10)"
  by (simp add: analyze_spectrum_def sweep_spectrum_def Let_def rfft_two rfftfreq_two
      band_mean_def)

text \<open>
  C8, amended. On every non-empty recording and non-zero sample rate both computations
  succeed, and against the analyzer run with the noise band \<open>(100, 0.8 * band_start)\<close> the
  sweep step differs in two more ways than the bounds: it takes the power as \<open>|X|\<^sup>2\<close> where
  the analyzer takes \<open>(|X| / N)\<^sup>2\<close>, and its noise band excludes both edges where the
  analyzer's includes them. Hence the sweep's signal power is \<open>N\<^sup>2\<close> times the analyzer's;
  when no bin lies exactly on 100 Hz or on \<open>0.8 * band_start\<close> and some bin lies in the noise
  band, the sweep's noise power is \<open>N\<^sup>2\<close> times the analyzer's, and the two SNR values are
  equal provided the analyzer's noise power is at least the floor \<open>10\<^sup>-\<^sup>1\<^sup>0\<close>.
\<close>

theorem sweep_spectrum_vs_analyzer:
  assumes "recording \<noteq> []" and "sample_rate \<noteq> 0"
  shows "\<exists>a s.
      analyze_spectrum recording sample_rate start_freq end_freq 100 (start_freq * (8 / 10))
        = Inr a
      \<and> sweep_spectrum recording sample_rate start_freq end_freq = Inr s
      \<and> signal_power s = (of_nat (length recording)) ^ 2 * signal_power a
      \<and> ((\<forall>f \<in> set (rfftfreq (length recording) (1 / of_int sample_rate)).
             f \<noteq> 100 \<and> f \<noteq> start_freq * (8 / 10))
          \<and> (\<exists>f \<in> set (rfftfreq (length recording) (1 / of_int sample_rate)).
             100 < f \<and> f < start_freq * (8 / 10))
          \<longrightarrow> noise_power s = (of_nat (length recording)) ^ 2 * noise_power a
              \<and> (1 / 10 ^ 10 \<le> noise_power a \<longrightarrow> snr_db s = snr_db a))"
proof -
  let ?n = "length recording"
  let ?c = "(of_nat ?n :: real) ^ 2"
  let ?F = "rfftfreq ?n (1 / of_int sample_rate)"
  let ?Pa = "map (\<lambda>m. m ^ 2) (map (\<lambda>z. cmod z / of_nat ?n) (rfft recording))"
  let ?Ps = "map (\<lambda>z. cmod z ^ 2) (rfft recording)"
  let ?sig = "\<lambda>f. f \<ge> start_freq \<and> f \<le> end_freq"
  let ?na = "\<lambda>f. f \<ge> 100 \<and> f \<le> start_freq * (8 / 10)"
  let ?ns = "\<lambda>f. f > 100 \<and> f < start_freq * (8 / 10)"
  let ?fl = "1 / 10 ^ 10 :: real"
  let ?a = "\<lparr>signal_power = band_mean ?sig ?F ?Pa 0, noise_power = band_mean ?na ?F ?Pa ?fl,
      snr_db = log10_db (band_mean ?sig ?F ?Pa 0 / max (band_mean ?na ?F ?Pa ?fl) ?fl)\<rparr>"
  let ?s = "\<lparr>signal_power = band_mean ?sig ?F ?Ps 0, noise_power = band_mean ?ns ?F ?Ps ?fl,
      snr_db = log10_db (band_mean ?sig ?F ?Ps 0 / max (band_mean ?ns ?F ?Ps ?fl) ?fl)\<rparr>"
  from assms(1) have n: "0 < ?n" by simp
  then have c0: "?c \<noteq> 0" by simp
  have "1 \<le> (of_nat ?n :: real)" using assms(1) by (cases recording) simp_all
  then have c1: "1 \<le> ?c" by (rule one_le_power)
  have A: "analyze_spectrum recording sample_rate start_freq end_freq 100 (start_freq * (8 / 10))
      = Inr ?a"
    using assms by (simp add: analyze_spectrum_def Let_def)
  have S: "sweep_spectrum recording sample_rate start_freq end_freq = Inr ?s"
    using assms by (simp add: sweep_spectrum_def Let_def)
  have P: "?Ps = map (\<lambda>p. ?c * p) ?Pa"
    using n by (simp add: power_divide)
  have sig: "band_mean ?sig ?F ?Ps 0 = ?c * band_mean ?sig ?F ?Pa 0"
    unfolding P using band_mean_scale [OF c0, of ?sig ?F ?Pa 0] by simp
  have noise: "band_mean ?ns ?F ?Ps ?fl = ?c * band_mean ?na ?F ?Pa ?fl"
    and snr: "?fl \<le> band_mean ?na ?F ?Pa ?fl \<Longrightarrow>
       log10_db (band_mean ?sig ?F ?Ps 0 / max (band_mean ?ns ?F ?Ps ?fl) ?fl)
       = log10_db (band_mean ?sig ?F ?Pa 0 / max (band_mean ?na ?F ?Pa ?fl) ?fl)"
    if edge: "\<forall>f \<in> set ?F. f \<noteq> 100 \<and> f \<noteq> start_freq * (8 / 10)"
      and some: "\<exists>f \<in> set ?F. 100 < f \<and> f < start_freq * (8 / 10)"
  proof -
    have m: "band_mean ?ns ?F ?Ps ?fl = band_mean ?na ?F ?Ps ?fl"
      by (rule band_mean_cong) (use edge in force)
    have len: "length ?F = length ?Ps"
      by (simp add: length_rfft length_rfftfreq)
    from some obtain f where f: "f \<in> set ?F" "?na f" by force
    from f(1) len obtain x where "x \<in> set (zip ?F ?Ps)" "fst x = f"
      by (metis (no_types, lifting) in_set_impl_in_set_zip1 fst_conv)
    with f(2) have ne: "\<exists>x \<in> set (zip ?F ?Ps). ?na (fst x)" by blast
    have "band_mean ?na ?F ?Ps ?fl = band_mean ?na ?F ?Ps (?c * ?fl)"
      by (rule band_mean_nonempty [OF ne])
    also have "\<dots> = ?c * band_mean ?na ?F ?Pa ?fl"
      unfolding P by (rule band_mean_scale [OF c0])
    finally show noise: "band_mean ?ns ?F ?Ps ?fl = ?c * band_mean ?na ?F ?Pa ?fl"
      using m by simp
    assume fl: "?fl \<le> band_mean ?na ?F ?Pa ?fl"
    then have pos: "0 < band_mean ?na ?F ?Pa ?fl"
      by (rule less_le_trans [rotated]) simp
    from fl c1 pos have "?fl \<le> ?c * band_mean ?na ?F ?Pa ?fl"
      by (smt (verit, best) mult_le_cancel_right1)
    then have mx: "max (?c * band_mean ?na ?F ?Pa ?fl) ?fl = ?c * band_mean ?na ?F ?Pa ?fl"
      by (simp add: max_def)
    from fl have mx': "max (band_mean ?na ?F ?Pa ?fl) ?fl = band_mean ?na ?F ?Pa ?fl"
      by (simp add: max_def)
    show "log10_db (band_mean ?sig ?F ?Ps 0 / max (band_mean ?ns ?F ?Ps ?fl) ?fl)
       = log10_db (band_mean ?sig ?F ?Pa 0 / max (band_mean ?na ?F ?Pa ?fl) ?fl)"
      unfolding noise sig mx mx' using c0 by simp
  qed
  show ?thesis
    apply (rule exI [of _ ?a], rule exI [of _ ?s])
    using A S sig noise snr by simp
qed


theorem sweep_spectrum_vs_analyzer_witness:
  "[1, - 1 :: real] \<noteq> [] \<and> (40000 :: int) \<noteq> 0
   \<and> (\<exists>a s.
      analyze_spectrum [1, - 1] 40000 30000 35000 100 (30000 * (8 / 10)) = Inr a
      \<and> sweep_spectrum [1, - 1] 40000 30000 35000 = Inr s
      \<and> noise_power a = 1 \<and> noise_power s = 4 \<and> snr_db s = snr_db a)"
proof -
  have r: "[1, - 1 :: real] \<noteq> []" by simp
  have z: "(40000 :: int) \<noteq> 0" by simp
  from sweep_spectrum_vs_analyzer [OF r z, of 30000 35000] obtain a s where
    A: "analyze_spectrum [1, - 1] 40000 30000 35000 100 (30000 * (8 / 10)) = Inr a"
    and S: "sweep_spectrum [1, - 1] 40000 30000 35000 = Inr s"
    and I: "(\<forall>f \<in> set (rfftfreq (length [1, - 1 :: real]) (1 / of_int 40000)).
             f \<noteq> 100 \<and> f \<noteq> 30000 * (8 / 10))
          \<and> (\<exists>f \<in> set (rfftfreq (length [1, - 1 :: real]) (1 / of_int 40000)).
             100 < f \<and> f < 30000 * (8 / 10))
          \<longrightarrow> noise_power s = (of_nat (length [1, - 1 :: real])) ^ 2 * noise_power a
              \<and> (1 / 10 ^ 10 \<le> noise_power a \<longrightarrow> snr_db s = snr_db a)"
    by blast
  have F: "rfftfreq (length [1, - 1 :: real]) (1 / of_int 40000) = [0, 20000]"
    by (simp add: rfftfreq_two)
  from A have na: "noise_power a = 1"
    by (auto simp: analyze_spectrum_def Let_def rfft_two rfftfreq_two band_mean_def)
  from I have "noise_power s = (of_nat (length [1, - 1 :: real])) ^ 2 * noise_power a
              \<and> (1 / 10 ^ 10 \<le> noise_power a \<longrightarrow> snr_db s = snr_db a)"
    unfolding F by simp
  with na have "noise_power s = 4 \<and> snr_db s = snr_db a" by simp
  with A S na r z show ?thesis by blast
qed

section \<open>The UART reframer on a transmitted bit stream\<close>

lemma uart_loop_shift:
  "uart_loop bits i raw = uart_loop (drop i bits) 0 raw"
proof (induction "length bits - i" arbitrary: bits i raw rule: less_induct)
  case less
  show ?case
  proof (cases "i < length bits")
    case False
    then show ?thesis
      by (simp add: uart_loop.simps [of bits i] uart_loop.simps [of "[]" 0])
  next
    case True
    note inb = this
    have bv: "byte_val (drop i bits) 0 = byte_val bits i" if "i + 9 < length bits"
    proof -
      have "bits ! (i + 1 + b) = drop i bits ! (0 + 1 + b)" if "b \<in> set [0 ..< 8]" for b
        using that \<open>i + 9 < length bits\<close> by (simp add: add.assoc)
      then show ?thesis
        unfolding byte_val_def by (intro foldl_cong refl) simp_all
    qed
    have one: "uart_loop bits (i + 1) r = uart_loop (drop i bits) 1 r" for r
    proof -
      have "uart_loop bits (i + 1) r = uart_loop (drop (i + 1) bits) 0 r"
        using inb by (intro less) simp
      also have "\<dots> = uart_loop (drop 1 (drop i bits)) 0 r" by (simp add: add.commute)
      also have "\<dots> = uart_loop (drop i bits) 1 r"
        using inb by (intro less [symmetric]) simp
      finally show ?thesis .
    qed
    have ten: "uart_loop bits (i + 10) r = uart_loop (drop i bits) 10 r"
      if "i + 9 < length bits" for r
    proof -
      have "uart_loop bits (i + 10) r = uart_loop (drop (i + 10) bits) 0 r"
        using that by (intro less) simp
      also have "\<dots> = uart_loop (drop 10 (drop i bits)) 0 r" by (simp add: add.commute)
      also have "\<dots> = uart_loop (drop i bits) 10 r"
        using that by (intro less [symmetric]) simp
      finally show ?thesis .
    qed
    have lhs: "uart_loop bits i raw =
        (if bits ! i = 0 then
           (if i + 9 \<ge> length bits then raw
            else if bits ! (i + 9) = 1 then
              uart_loop bits (i + 10) (raw @ [of_nat (byte_val bits i)])
            else uart_loop bits (i + 1) raw)
         else uart_loop bits (i + 1) raw)"
      using inb by (subst uart_loop.simps) simp
    have rhs: "uart_loop (drop i bits) 0 raw =
        (if bits ! i = 0 then
           (if i + 9 \<ge> length bits then raw
            else if bits ! (i + 9) = 1 then
              uart_loop (drop i bits) 10 (raw @ [of_nat (byte_val (drop i bits) 0)])
            else uart_loop (drop i bits) 1 raw)
         else uart_loop (drop i bits) 1 raw)"
    proof -
      have c: "(9 \<ge> length bits - i) = (i + 9 \<ge> length bits)" by linarith
      show ?thesis
        using inb by (subst uart_loop.simps) (simp add: c)
    qed
    show ?thesis
    proof (cases "i + 9 < length bits")
      case True
      then have "\<not> i + 9 \<ge> length bits" by simp
      then show ?thesis
        unfolding lhs rhs one ten [OF True] bv [OF True] by simp
    next
      case False
      then have "i + 9 \<ge> length bits" by simp
      then show ?thesis
        unfolding lhs rhs one by simp
    qed
  qed
qed

lemma uart_idle:
  "b \<noteq> 0 \<Longrightarrow> uart_loop (b # bs) 0 raw = uart_loop bs 0 raw"
  using uart_loop_shift [of "b # bs" 1 raw]
  by (simp add: uart_loop.simps [of "b # bs" 0])

lemma uart_byte:
  assumes "9 \<le> length bs" and "bs ! 8 = 1"
  shows "uart_loop (0 # bs) 0 raw = uart_loop (drop 9 bs) 0 (raw @ [of_nat (byte_val (0 # bs) 0)])"
  using assms uart_loop_shift [of "0 # bs" 10 "raw @ [of_nat (byte_val (0 # bs) 0)]"]
  by (simp add: uart_loop.simps [of "0 # bs" 0])

lemma uart_framing_error:
  assumes "9 \<le> length bs" and "bs ! 8 \<noteq> 1"
  shows "uart_loop (0 # bs) 0 raw = uart_loop bs 0 raw"
  using assms uart_loop_shift [of "0 # bs" 1 raw]
  by (simp add: uart_loop.simps [of "0 # bs" 0])

lemma uart_empty: "uart_loop [] 0 raw = raw"
  by (simp add: uart_loop.simps [of "[]" 0])

lemma uart_idle_run: "uart_loop (replicate n 1 @ bs) 0 raw = uart_loop bs 0 raw"
  by (induction n) (simp_all add: uart_idle)


lemma byte_bit_value: "unat (drop_bit j b AND 1) = unat b div 2 ^ j mod 2" for b :: byte
proof -
  have "unat (drop_bit j b AND 1) = unat (drop_bit j b) AND unat (1 :: byte)"
    by (rule unsigned_and_eq)
  also have "\<dots> = drop_bit j (unat b) AND 1"
    by (simp only: unat_drop_bit_eq unsigned_1)
  also have "\<dots> = unat b div 2 ^ j mod 2"
    by (simp only: and_one_eq drop_bit_eq_div)
  finally show ?thesis .
qed

lemma shift_or_bit: "push_bit 1 v OR d mod 2 = 2 * v + d mod 2" for v d :: nat
proof (cases "d mod 2 = 0")
  case True
  then show ?thesis by (simp add: push_bit_eq_mult)
next
  case False
  then have d: "d mod 2 = 1" by presburger
  have "v * 2 OR (1 :: nat) = v * 2 + of_bool (even (v * 2))" by (rule or_one_eq)
  then show ?thesis unfolding d by (simp add: push_bit_eq_mult)
qed

lemma horner_byte:
  assumes "u < 256"
  shows "2 * (2 * (2 * (2 * (2 * (2 * (2 * (2 * 0 + u div 2 ^ 7 mod 2) + u div 2 ^ 6 mod 2)
           + u div 2 ^ 5 mod 2) + u div 2 ^ 4 mod 2) + u div 2 ^ 3 mod 2) + u div 2 ^ 2 mod 2)
           + u div 2 ^ 1 mod 2) + u div 2 ^ 0 mod 2
         = (u :: nat)"
proof -
  define q where "q j = u div 2 ^ j" for j
  define d where "d j = q j mod 2" for j
  have st: "q j = 2 * q (Suc j) + d j" for j
  proof -
    have "u div 2 ^ Suc j = u div 2 ^ j div 2"
      by (simp only: power_Suc2 div_mult2_eq)
    then show ?thesis unfolding q_def d_def by simp
  qed
  have n: "Suc 0 = 1" "Suc 1 = 2" "Suc 2 = 3" "Suc 3 = 4" "Suc 4 = 5" "Suc 5 = 6" "Suc 6 = 7"
    "Suc 7 = 8"
    by simp_all
  have s: "q 0 = 2 * q 1 + d 0" "q 1 = 2 * q 2 + d 1" "q 2 = 2 * q 3 + d 2"
    "q 3 = 2 * q 4 + d 3" "q 4 = 2 * q 5 + d 4" "q 5 = 2 * q 6 + d 5"
    "q 6 = 2 * q 7 + d 6" "q 7 = 2 * q 8 + d 7"
    using st [of 0] st [of 1] st [of 2] st [of 3] st [of 4] st [of 5] st [of 6] st [of 7]
    unfolding n by blast+
  have q8: "q 8 = 0" unfolding q_def using assms by simp
  have q0: "q 0 = u" by (simp add: q_def)
  have "2 * (2 * (2 * (2 * (2 * (2 * (2 * (2 * 0 + d 7) + d 6) + d 5) + d 4) + d 3) + d 2)
          + d 1) + d 0 = q 0"
    by (simp only: s q8)
  then have "2 * (2 * (2 * (2 * (2 * (2 * (2 * (2 * 0 + d 7) + d 6) + d 5) + d 4) + d 3) + d 2)
          + d 1) + d 0 = u"
    by (simp only: q0)
  then show ?thesis unfolding d_def q_def .
qed

lemma foldl_eight:
  "foldl f z [a0, a1, a2, a3, a4, a5, a6, a7]
     = f (f (f (f (f (f (f (f z a0) a1) a2) a3) a4) a5) a6) a7"
  by simp

lemma byte_val_roundtrip: "byte_val (0 # byte_bits b @ rest) 0 = unat b"
proof -
  have u: "unat b < 256" using unsigned_less [of b] by simp
  have e: "[0 ..< 8] = [0, 1, 2, 3, 4, 5, 6, 7 :: nat]" by (simp add: upt_rec)
  have n: "(0 # byte_bits b @ rest) ! (0 + 1 + 0) = unat b div 2 ^ 7 mod 2"
    "(0 # byte_bits b @ rest) ! (0 + 1 + 1) = unat b div 2 ^ 6 mod 2"
    "(0 # byte_bits b @ rest) ! (0 + 1 + 2) = unat b div 2 ^ 5 mod 2"
    "(0 # byte_bits b @ rest) ! (0 + 1 + 3) = unat b div 2 ^ 4 mod 2"
    "(0 # byte_bits b @ rest) ! (0 + 1 + 4) = unat b div 2 ^ 3 mod 2"
    "(0 # byte_bits b @ rest) ! (0 + 1 + 5) = unat b div 2 ^ 2 mod 2"
    "(0 # byte_bits b @ rest) ! (0 + 1 + 6) = unat b div 2 ^ 1 mod 2"
    "(0 # byte_bits b @ rest) ! (0 + 1 + 7) = unat b div 2 ^ 0 mod 2"
    by (simp_all add: byte_bits_def byte_bit_value)
  show ?thesis
    unfolding byte_val_def e foldl_eight n shift_or_bit
    by (rule horner_byte [OF u])
qed


lemma length_byte_bits: "length (byte_bits b) = 8"
  by (simp add: byte_bits_def)

lemma uart_unit:
  "uart_loop (0 # byte_bits b @ Suc 0 # rest) 0 raw = uart_loop rest 0 (raw @ [b])"
proof -
  have l: "9 \<le> length (byte_bits b @ Suc 0 # rest)" by (simp add: length_byte_bits)
  have s: "(byte_bits b @ Suc 0 # rest) ! 8 = 1" by (simp add: nth_append length_byte_bits)
  have d: "drop 9 (byte_bits b @ Suc 0 # rest) = rest" by (simp add: length_byte_bits)
  have v: "byte_val (0 # byte_bits b @ Suc 0 # rest) 0 = unat b" by (rule byte_val_roundtrip)
  show ?thesis
    unfolding uart_byte [OF l s] d v by simp
qed

lemma uart_stray_start:
  assumes "even (unat b)"
  shows "uart_loop (0 # 0 # byte_bits b @ Suc 0 # rest) 0 raw
       = uart_loop (0 # byte_bits b @ Suc 0 # rest) 0 raw"
proof -
  have l: "9 \<le> length (0 # byte_bits b @ Suc 0 # rest)" by (simp add: length_byte_bits)
  have "(0 # byte_bits b @ Suc 0 # rest) ! 8 = byte_bits b ! 7"
    by (simp add: nth_append length_byte_bits)
  also have "\<dots> = unat b mod 2"
    by (simp add: byte_bits_def byte_bit_value)
  also have "\<dots> = 0" using assms by presburger
  finally have s: "(0 # byte_bits b @ Suc 0 # rest) ! 8 \<noteq> 1" by simp
  show ?thesis by (rule uart_framing_error [OF l s])
qed

lemma uart_data:
  "uart_loop (concat (map (\<lambda>b. [0] @ byte_bits b @ [1]) data) @ replicate 16 1) 0 raw
     = raw @ data"
proof (induction data arbitrary: raw)
  case Nil
  show ?case using uart_idle_run [of 16 "[]" raw] by (simp add: uart_empty)
next
  case (Cons b data)
  show ?case using Cons.IH [of "raw @ [b]"] by (simp add: uart_unit)
qed

lemma byte_bits_AA: "byte_bits 0xAA = [Suc 0, 0, Suc 0, 0, Suc 0, 0, Suc 0, 0]"
  by (simp add: byte_bits_def byte_bit_value)

lemma concat_replicate_16:
  "concat (replicate 16 [x, y]) =
     [x, y, x, y, x, y, x, y, x, y, x, y, x, y, x, y, x, y, x, y, x, y, x, y, x, y, x, y, x, y, x, y]"
  by (simp add: numeral_eq_Suc)

lemma frame_bits_units:
  "frame_bits (b # data)
     = Suc 0 # 0 # byte_bits 0xAA @ Suc 0 # 0 # byte_bits 0xAA @ Suc 0 # 0 # byte_bits 0xAA @ Suc 0
       # 0 # 0 # byte_bits b @ Suc 0
       # concat (map (\<lambda>b. [0] @ byte_bits b @ [1]) data) @ replicate 16 1"
  unfolding frame_bits_def preamble_def concat_replicate_16 byte_bits_AA by simp

lemma uart_frame_bits:
  assumes "even (unat b)"
  shows "uart_loop (frame_bits (b # data)) 0 [] = [0xAA, 0xAA, 0xAA] @ b # data"
proof -
  let ?rest = "concat (map (\<lambda>b. [0] @ byte_bits b @ [1]) data) @ replicate 16 1"
  have d: "uart_loop (0 # byte_bits b @ Suc 0 # ?rest) 0 raw = raw @ b # data" for raw
    using uart_data [of "b # data" raw] by simp
  have "uart_loop (frame_bits (b # data)) 0 []
      = uart_loop (0 # byte_bits 0xAA @ Suc 0 # 0 # byte_bits 0xAA @ Suc 0 # 0 # byte_bits 0xAA
          @ Suc 0 # 0 # 0 # byte_bits b @ Suc 0 # ?rest) 0 []"
    unfolding frame_bits_units by (rule uart_idle) simp
  also have "\<dots> = uart_loop (0 # byte_bits 0xAA @ Suc 0 # 0 # byte_bits 0xAA
          @ Suc 0 # 0 # 0 # byte_bits b @ Suc 0 # ?rest) 0 ([] @ [0xAA])"
    by (rule uart_unit)
  also have "\<dots> = uart_loop (0 # byte_bits 0xAA
          @ Suc 0 # 0 # 0 # byte_bits b @ Suc 0 # ?rest) 0 (([] @ [0xAA]) @ [0xAA])"
    by (rule uart_unit)
  also have "\<dots> = uart_loop (0 # 0 # byte_bits b @ Suc 0 # ?rest) 0
          ((([] @ [0xAA]) @ [0xAA]) @ [0xAA])"
    by (rule uart_unit)
  also have "\<dots> = uart_loop (0 # byte_bits b @ Suc 0 # ?rest) 0
          ((([] @ [0xAA]) @ [0xAA]) @ [0xAA])"
    by (rule uart_stray_start [OF assms])
  also have "\<dots> = ((([] @ [0xAA]) @ [0xAA]) @ [0xAA]) @ b # data"
    by (rule d)
  finally show ?thesis by simp
qed

section \<open>The Goertzel filter computes a Fourier sum\<close>

definition fourier_sum :: "real \<Rightarrow> real list \<Rightarrow> complex" where
  "fourier_sum w xs = (\<Sum>j<length xs. of_real (xs ! j) * cis (- w) ^ j)"

lemma goertzel_loop_complex:
  assumes "goertzel_loop (2 * cos w) xs (s1, s2) = (t1, t2)"
  shows "of_real t1 - cis (- w) * of_real t2
       = cis w ^ length xs
         * ((of_real s1 - cis (- w) * of_real s2)
            + (\<Sum>j<length xs. of_real (xs ! j) * cis (- w) ^ Suc j))"
  using assms
proof (induction xs arbitrary: s1 s2)
  case Nil
  then show ?case by simp
next
  case (Cons x xs)
  let ?u = "cis w" and ?v = "cis (- w)"
  have uv: "?u * ?v = 1" by (simp add: cis_mult)
  have c: "of_real (2 * cos w) = ?u + ?v"
    by (simp add: complex_eq_iff)
  from Cons.prems have "goertzel_loop (2 * cos w) xs (x + 2 * cos w * s1 - s2, s1) = (t1, t2)"
    by simp
  from Cons.IH [OF this] have
    "of_real t1 - ?v * of_real t2
       = ?u ^ length xs
         * ((of_real (x + 2 * cos w * s1 - s2) - ?v * of_real s1)
            + (\<Sum>j<length xs. of_real (xs ! j) * ?v ^ Suc j))" .
  also have "of_real (x + 2 * cos w * s1 - s2) - ?v * of_real s1
      = of_real x + ?u * (of_real s1 - ?v * of_real s2)"
  proof -
    have "of_real (x + 2 * cos w * s1 - s2) - ?v * of_real s1
        = of_real x + of_real (2 * cos w) * of_real s1 - of_real s2 - ?v * of_real s1"
      by (simp only: of_real_add of_real_diff of_real_mult)
    also have "\<dots> = of_real x + ?u * of_real s1 - (?u * ?v) * of_real s2"
      unfolding c uv by (simp add: algebra_simps)
    finally show ?thesis by (simp add: algebra_simps)
  qed
  also have "?u ^ length xs
         * ((of_real x + ?u * (of_real s1 - ?v * of_real s2))
            + (\<Sum>j<length xs. of_real (xs ! j) * ?v ^ Suc j))
      = ?u ^ length (x # xs)
         * ((of_real s1 - ?v * of_real s2)
            + (\<Sum>j<length (x # xs). of_real ((x # xs) ! j) * ?v ^ Suc j))"
  proof -
    have "(\<Sum>j<length (x # xs). of_real ((x # xs) ! j) * ?v ^ Suc j)
        = of_real ((x # xs) ! 0) * ?v ^ Suc 0
          + (\<Sum>j<length xs. of_real ((x # xs) ! Suc j) * ?v ^ Suc (Suc j))"
      unfolding length_Cons by (rule sum.lessThan_Suc_shift)
    also have "(\<Sum>j<length xs. of_real ((x # xs) ! Suc j) * ?v ^ Suc (Suc j))
        = ?v * (\<Sum>j<length xs. of_real (xs ! j) * ?v ^ Suc j)"
      by (simp add: sum_distrib_left algebra_simps)
    finally have "(\<Sum>j<length (x # xs). of_real ((x # xs) ! j) * ?v ^ Suc j)
        = of_real x * ?v + ?v * (\<Sum>j<length xs. of_real (xs ! j) * ?v ^ Suc j)"
      by simp
    then have "?u * ((of_real s1 - ?v * of_real s2)
            + (\<Sum>j<length (x # xs). of_real ((x # xs) ! j) * ?v ^ Suc j))
        = ?u * (of_real s1 - ?v * of_real s2) + of_real x * (?u * ?v)
          + (?u * ?v) * (\<Sum>j<length xs. of_real (xs ! j) * ?v ^ Suc j)"
      by (simp only: algebra_simps)
    then have "?u * ((of_real s1 - ?v * of_real s2)
            + (\<Sum>j<length (x # xs). of_real ((x # xs) ! j) * ?v ^ Suc j))
        = (of_real x + ?u * (of_real s1 - ?v * of_real s2))
          + (\<Sum>j<length xs. of_real (xs ! j) * ?v ^ Suc j)"
      unfolding uv by simp
    then show ?thesis
      by (simp only: length_Cons power_Suc2 mult.assoc)
  qed
  finally show ?case .
qed

lemma goertzel_power:
  "s1 * s1 + s2 * s2 - 2 * cos w * s1 * s2 = (cmod (of_real s1 - cis (- w) * of_real s2))\<^sup>2"
proof -
  have "(cmod (of_real s1 - cis (- w) * of_real s2))\<^sup>2
      = (s1 - cos w * s2)\<^sup>2 + (sin w * s2)\<^sup>2"
    by (simp add: cmod_power2)
  also have "\<dots> = s1 * s1 + s2 * s2 - 2 * cos w * s1 * s2"
  proof -
    have sc: "sin w * sin w + cos w * cos w = 1"
      using sin_cos_squared_add [of w] by (simp add: power2_eq_square)
    then show ?thesis by algebra
  qed
  finally show ?thesis by simp
qed

lemma goertzel_fourier:
  assumes "sample_rate \<noteq> 0" and "xs \<noteq> []"
  shows "goertzel xs target_freq sample_rate
     = Inr ((cmod (fourier_sum
               (2 * pi * of_int (py_int (1 / 2 + of_nat (length xs) * target_freq
                   / of_int sample_rate)) / of_nat (length xs)) xs))\<^sup>2
            / (of_nat (length xs))\<^sup>2)"
proof -
  let ?w = "2 * pi * of_int (py_int (1 / 2 + of_nat (length xs) * target_freq
                   / of_int sample_rate)) / of_nat (length xs)"
  obtain t1 t2 where t: "goertzel_loop (2 * cos ?w) xs (0, 0) = (t1, t2)"
    by (cases "goertzel_loop (2 * cos ?w) xs (0, 0)") blast
  from goertzel_loop_complex [OF t] have
    y: "of_real t1 - cis (- ?w) * of_real t2
       = cis ?w ^ length xs * (\<Sum>j<length xs. of_real (xs ! j) * cis (- ?w) ^ Suc j)"
    by simp
  have "(\<Sum>j<length xs. of_real (xs ! j) * cis (- ?w) ^ Suc j)
      = cis (- ?w) * fourier_sum ?w xs"
    unfolding fourier_sum_def by (simp add: sum_distrib_left algebra_simps)
  with y have "cmod (of_real t1 - cis (- ?w) * of_real t2) = cmod (fourier_sum ?w xs)"
    by (simp add: norm_mult norm_power)
  then have p: "t1 * t1 + t2 * t2 - 2 * cos ?w * t1 * t2 = (cmod (fourier_sum ?w xs))\<^sup>2"
    by (simp only: goertzel_power)
  from assms have n: "length xs \<noteq> 0" by simp
  show ?thesis
    using assms(1) n t p
    by (simp add: goertzel_def Let_def power2_eq_square)
qed


section \<open>The Fourier sum of one bit window\<close>

definition tone :: "nat \<Rightarrow> real \<Rightarrow> real \<Rightarrow> real list" where
  "tone n phase phase_inc = map (\<lambda>j. amplitude * sin (phase + of_nat j * phase_inc)) [0 ..< n]"

definition geom :: "nat \<Rightarrow> real \<Rightarrow> complex" where
  "geom n a = (\<Sum>j<n. cis a ^ j)"

lemma cmod_cis_minus_one: "cmod (cis b - 1) = 2 * \<bar>sin (b / 2)\<bar>"
proof -
  have "(cmod (cis b - 1))\<^sup>2 = (cos b - 1)\<^sup>2 + (sin b)\<^sup>2"
    by (simp add: cmod_power2)
  also have "\<dots> = 2 - 2 * cos b"
    using sin_cos_squared_add [of b] by (simp add: power2_eq_square algebra_simps)
  also have "cos b = 1 - 2 * (sin (b / 2))\<^sup>2"
    using cos_double_sin [of "b / 2"] by simp
  finally have "(cmod (cis b - 1))\<^sup>2 = (2 * \<bar>sin (b / 2)\<bar>)\<^sup>2"
    by (simp add: power2_eq_square)
  then show ?thesis
    by (simp only: power2_eq_iff_nonneg [OF norm_ge_zero, of "2 * \<bar>sin (b / 2)\<bar>"])
qed

lemma geom_unit: "geom n 0 = of_nat n"
  by (simp add: geom_def)

lemma geom_cmod:
  assumes "sin (a / 2) \<noteq> 0"
  shows "cmod (geom n a) = \<bar>sin (of_nat n * a / 2)\<bar> / \<bar>sin (a / 2)\<bar>"
proof -
  have "cmod (cis a - 1) \<noteq> 0" using assms by (simp only: cmod_cis_minus_one)
  then have ne: "cis a \<noteq> 1" by auto
  have "geom n a = (cis a ^ n - 1) / (cis a - 1)"
    unfolding geom_def using ne by (rule geometric_sum)
  also have "cis a ^ n = cis (of_nat n * a)" by (rule DeMoivre)
  finally have "cmod (geom n a) = cmod (cis (of_nat n * a) - 1) / cmod (cis a - 1)"
    by (simp add: norm_divide)
  then show ?thesis by (simp add: cmod_cis_minus_one)
qed

lemma geom_zero:
  assumes "sin (a / 2) \<noteq> 0" and "sin (of_nat n * a / 2) = 0"
  shows "geom n a = 0"
  using geom_cmod [OF assms(1), of n] assms(2) by simp

lemma geom_bound:
  assumes "c \<le> \<bar>sin (a / 2)\<bar>" and "0 < c"
  shows "cmod (geom n a) \<le> 1 / c"
proof -
  from assms have ne: "sin (a / 2) \<noteq> 0" by auto
  have "cmod (geom n a) = \<bar>sin (of_nat n * a / 2)\<bar> / \<bar>sin (a / 2)\<bar>"
    by (rule geom_cmod [OF ne])
  also have "\<dots> \<le> 1 / c"
    using assms by (intro frac_le) simp_all
  finally show ?thesis .
qed

lemma sin_as_cis: "of_real (sin t) = (cis t - cis (- t)) / (2 * \<i>)"
  by (simp add: complex_eq_iff)

lemma scale_difference: "a * ((x - y) / c) * p = a / c * (x * p - y * p)" for a :: complex
  by (cases "c = 0") (simp_all add: field_simps)

lemma sum_two_geometric:
  "(\<Sum>j<n. c * (p * x ^ j - q * y ^ j)) = c * (p * (\<Sum>j<n. x ^ j) - q * (\<Sum>j<n. y ^ j))"
  for c :: complex
  by (simp only: sum_distrib_left sum_subtractf [symmetric])

lemma fourier_sum_tone:
  "fourier_sum w (tone n phase phase_inc)
     = of_real amplitude / (2 * \<i>)
       * (cis phase * geom n (phase_inc - w) - cis (- phase) * geom n (- (phase_inc + w)))"
proof -
  have tm: "of_real (tone n phase phase_inc ! j) * cis (- w) ^ j
      = of_real amplitude / (2 * \<i>)
        * (cis phase * cis (phase_inc - w) ^ j - cis (- phase) * cis (- (phase_inc + w)) ^ j)"
    if "j < n" for j
  proof -
    have a: "cis (phase + of_nat j * phase_inc) * cis (- w) ^ j
        = cis phase * cis (phase_inc - w) ^ j"
      by (simp add: DeMoivre cis_mult algebra_simps)
    have b: "cis (- (phase + of_nat j * phase_inc)) * cis (- w) ^ j
        = cis (- phase) * cis (- (phase_inc + w)) ^ j"
      by (simp add: DeMoivre cis_mult algebra_simps)
    have "of_real (tone n phase phase_inc ! j) * cis (- w) ^ j
        = of_real amplitude * of_real (sin (phase + of_nat j * phase_inc)) * cis (- w) ^ j"
      using that by (simp add: tone_def)
    also have "\<dots> = of_real amplitude / (2 * \<i>)
        * (cis (phase + of_nat j * phase_inc) * cis (- w) ^ j
           - cis (- (phase + of_nat j * phase_inc)) * cis (- w) ^ j)"
      unfolding sin_as_cis by (rule scale_difference)
    finally show ?thesis unfolding a b .
  qed
  have "fourier_sum w (tone n phase phase_inc)
      = (\<Sum>j<n. of_real (tone n phase phase_inc ! j) * cis (- w) ^ j)"
    by (simp add: fourier_sum_def tone_def)
  also have "\<dots> = (\<Sum>j<n. of_real amplitude / (2 * \<i>)
        * (cis phase * cis (phase_inc - w) ^ j - cis (- phase) * cis (- (phase_inc + w)) ^ j))"
    by (rule sum.cong) (simp_all add: tm)
  also have "\<dots> = of_real amplitude / (2 * \<i>)
       * (cis phase * geom n (phase_inc - w) - cis (- phase) * geom n (- (phase_inc + w)))"
    unfolding geom_def by (rule sum_two_geometric)
  finally show ?thesis .
qed

lemma cmod_fourier_sum_tone:
  "cmod (fourier_sum w (tone n phase phase_inc))
     = amplitude / 2
       * cmod (cis phase * geom n (phase_inc - w) - cis (- phase) * geom n (- (phase_inc + w)))"
  unfolding fourier_sum_tone
  by (simp add: norm_mult norm_divide amplitude_def)

lemma fourier_sum_tone_upper:
  "cmod (fourier_sum w (tone n phase phase_inc))
     \<le> amplitude / 2 * (cmod (geom n (phase_inc - w)) + cmod (geom n (- (phase_inc + w))))"
proof -
  have "cmod (cis phase * geom n (phase_inc - w) - cis (- phase) * geom n (- (phase_inc + w)))
      \<le> cmod (cis phase * geom n (phase_inc - w)) + cmod (cis (- phase) * geom n (- (phase_inc + w)))"
    by (rule norm_triangle_ineq4)
  also have "\<dots> = cmod (geom n (phase_inc - w)) + cmod (geom n (- (phase_inc + w)))"
    by (simp add: norm_mult)
  finally show ?thesis
    unfolding cmod_fourier_sum_tone
    by (intro mult_left_mono) (simp_all add: amplitude_def)
qed

lemma fourier_sum_tone_lower:
  "amplitude / 2 * (cmod (geom n (phase_inc - w)) - cmod (geom n (- (phase_inc + w))))
     \<le> cmod (fourier_sum w (tone n phase phase_inc))"
proof -
  have "cmod (cis phase * geom n (phase_inc - w)) - cmod (cis (- phase) * geom n (- (phase_inc + w)))
      \<le> cmod (cis phase * geom n (phase_inc - w) - cis (- phase) * geom n (- (phase_inc + w)))"
    by (rule norm_triangle_ineq2)
  then have "cmod (geom n (phase_inc - w)) - cmod (geom n (- (phase_inc + w)))
      \<le> cmod (cis phase * geom n (phase_inc - w) - cis (- phase) * geom n (- (phase_inc + w)))"
    by (simp add: norm_mult)
  then show ?thesis
    unfolding cmod_fourier_sum_tone
    by (intro mult_left_mono) (simp_all add: amplitude_def)
qed


section \<open>Mark and space windows at 18 kHz, 20 kHz, 150 baud, 48 kHz\<close>

lemma abs_sin_multiple: "\<bar>sin (of_nat n * x)\<bar> \<le> of_nat n * \<bar>sin x\<bar>" for x :: real
proof (induction n)
  case 0
  show ?case by simp
next
  case (Suc n)
  have "sin (of_nat (Suc n) * x) = sin (of_nat n * x) * cos x + cos (of_nat n * x) * sin x"
    by (simp add: sin_add algebra_simps)
  also have "\<bar>\<dots>\<bar> \<le> \<bar>sin (of_nat n * x) * cos x\<bar> + \<bar>cos (of_nat n * x) * sin x\<bar>"
    by (rule abs_triangle_ineq)
  also have "\<dots> \<le> \<bar>sin (of_nat n * x)\<bar> * 1 + 1 * \<bar>sin x\<bar>"
    unfolding abs_mult by (intro add_mono mult_mono) simp_all
  also have "\<dots> \<le> of_nat n * \<bar>sin x\<bar> + \<bar>sin x\<bar>"
    using Suc.IH by simp
  finally show ?case by (simp add: algebra_simps)
qed

lemma sin_ge_half:
  assumes "pi / 6 \<le> x" and "x \<le> 5 * pi / 6"
  shows "1 / 2 \<le> sin x"
proof (cases "x \<le> pi / 2")
  case True
  have "sin (pi / 6) \<le> sin x"
    using assms(1) True by (intro sin_monotone_2pi_le) simp_all
  then show ?thesis by (simp add: sin_30)
next
  case False
  have "sin (pi / 6) \<le> sin (pi - x)"
    using assms(2) False by (intro sin_monotone_2pi_le) simp_all
  then show ?thesis by (simp add: sin_30)
qed

lemma sin_pi_24: "1 / 12 \<le> sin (pi / 24)"
proof -
  have "\<bar>sin (of_nat 12 * (pi / 24))\<bar> \<le> of_nat 12 * \<bar>sin (pi / 24)\<bar>"
    by (rule abs_sin_multiple)
  moreover have "of_nat 12 * (pi / 24) = pi / 2" by simp
  moreover have "0 < sin (pi / 24)" by (intro sin_gt_zero) simp_all
  ultimately show ?thesis by simp
qed

lemma sin_pi_960: "0 < sin (pi / 960)" "sin (pi / 960) \<le> 1 / 240"
proof -
  show "0 < sin (pi / 960)" by (intro sin_gt_zero) simp_all
  have "sin (pi / 960) \<le> pi / 960" by (intro sin_x_le_x) simp
  also have "\<dots> \<le> 1 / 240" using pi_less_4 by simp
  finally show "sin (pi / 960) \<le> 1 / 240" .
qed

text \<open>A mark window: the 18 kHz bin holds all the energy, the 20 kHz bin none.\<close>

lemma mark_window:
  "cmod (fourier_sum (3 * pi / 4) (tone 320 phase (3 * pi / 4))) = amplitude / 2 * 320"
  "fourier_sum (133 * pi / 160) (tone 320 phase (3 * pi / 4)) = 0"
proof -
  have z1: "geom 320 (- (3 * pi / 4 + 3 * pi / 4)) = 0"
  proof (rule geom_zero)
    have "0 < sin (3 * pi / 4)" by (intro sin_gt_zero) simp_all
    then show "sin (- (3 * pi / 4 + 3 * pi / 4) / 2) \<noteq> 0" by simp
    have "sin (of_nat 320 * - (3 * pi / 4 + 3 * pi / 4) / 2) = - sin (pi * of_int 240)"
      by simp
    then show "sin (of_nat 320 * - (3 * pi / 4 + 3 * pi / 4) / 2) = 0"
      by (simp only: sin_npi_int minus_zero)
  qed
  have "cmod (fourier_sum (3 * pi / 4) (tone 320 phase (3 * pi / 4)))
      = amplitude / 2 * cmod (cis phase * geom 320 (3 * pi / 4 - 3 * pi / 4)
          - cis (- phase) * geom 320 (- (3 * pi / 4 + 3 * pi / 4)))"
    by (rule cmod_fourier_sum_tone)
  then show "cmod (fourier_sum (3 * pi / 4) (tone 320 phase (3 * pi / 4))) = amplitude / 2 * 320"
    unfolding z1 by (simp add: geom_unit norm_mult)
  have z2: "geom 320 (3 * pi / 4 - 133 * pi / 160) = 0"
  proof (rule geom_zero)
    have "0 < sin (13 * pi / 320)" by (intro sin_gt_zero) simp_all
    moreover have "(3 * pi / 4 - 133 * pi / 160) / 2 = - (13 * pi / 320)" by simp
    ultimately show "sin ((3 * pi / 4 - 133 * pi / 160) / 2) \<noteq> 0" by simp
    have "of_nat 320 * (3 * pi / 4 - 133 * pi / 160) / 2 = - (pi * of_int 13)" by simp
    then show "sin (of_nat 320 * (3 * pi / 4 - 133 * pi / 160) / 2) = 0"
      by (simp only: sin_minus sin_npi_int minus_zero)
  qed
  have z3: "geom 320 (- (3 * pi / 4 + 133 * pi / 160)) = 0"
  proof (rule geom_zero)
    have "0 < sin (253 * pi / 320)" by (intro sin_gt_zero) simp_all
    moreover have "- (3 * pi / 4 + 133 * pi / 160) / 2 = - (253 * pi / 320)" by simp
    ultimately show "sin (- (3 * pi / 4 + 133 * pi / 160) / 2) \<noteq> 0" by simp
    have "of_nat 320 * - (3 * pi / 4 + 133 * pi / 160) / 2 = - (pi * of_int 253)" by simp
    then show "sin (of_nat 320 * - (3 * pi / 4 + 133 * pi / 160) / 2) = 0"
      by (simp only: sin_minus sin_npi_int minus_zero)
  qed
  show "fourier_sum (133 * pi / 160) (tone 320 phase (3 * pi / 4)) = 0"
    unfolding fourier_sum_tone z2 z3 by simp
qed

text \<open>A space window: the 20 kHz bin outweighs the 18 kHz bin.\<close>

lemma space_window:
  "cmod (fourier_sum (3 * pi / 4) (tone 320 phase (5 * pi / 6)))
     \<le> cmod (fourier_sum (133 * pi / 160) (tone 320 phase (5 * pi / 6)))"
proof -
  have g1: "cmod (geom 320 (5 * pi / 6 - 3 * pi / 4)) \<le> 12"
  proof -
    have "(5 * pi / 6 - 3 * pi / 4) / 2 = pi / 24" by simp
    then have "1 / 12 \<le> \<bar>sin ((5 * pi / 6 - 3 * pi / 4) / 2)\<bar>"
      using sin_pi_24 by simp
    then have "cmod (geom 320 (5 * pi / 6 - 3 * pi / 4)) \<le> 1 / (1 / 12)"
      by (rule geom_bound) simp
    then show ?thesis by simp
  qed
  have g2: "cmod (geom 320 (- (5 * pi / 6 + 3 * pi / 4))) \<le> 2"
  proof -
    have e: "- (5 * pi / 6 + 3 * pi / 4) / 2 = - (19 * pi / 24)" by simp
    have "1 / 2 \<le> sin (19 * pi / 24)" by (rule sin_ge_half) simp_all
    then have "1 / 2 \<le> \<bar>sin (- (5 * pi / 6 + 3 * pi / 4) / 2)\<bar>"
      unfolding e by simp
    then have "cmod (geom 320 (- (5 * pi / 6 + 3 * pi / 4))) \<le> 1 / (1 / 2)"
      by (rule geom_bound) simp
    then show ?thesis by simp
  qed
  have g3: "120 \<le> cmod (geom 320 (5 * pi / 6 - 133 * pi / 160))"
  proof -
    have e: "(5 * pi / 6 - 133 * pi / 160) / 2 = pi / 960" by simp
    have f: "of_nat 320 * (5 * pi / 6 - 133 * pi / 160) / 2 = pi / 3" by simp
    have ne: "sin ((5 * pi / 6 - 133 * pi / 160) / 2) \<noteq> 0"
      unfolding e using sin_pi_960(1) by simp
    have "cmod (geom 320 (5 * pi / 6 - 133 * pi / 160)) = \<bar>sin (pi / 3)\<bar> / \<bar>sin (pi / 960)\<bar>"
      unfolding geom_cmod [OF ne] e f ..
    also have "\<dots> = sin (pi / 3) / sin (pi / 960)"
      using sin_pi_960(1) by (simp add: sin_60)
    finally have c: "cmod (geom 320 (5 * pi / 6 - 133 * pi / 160)) = sin (pi / 3) / sin (pi / 960)" .
    have "1 / 2 \<le> sin (pi / 3)" by (rule sin_ge_half) simp_all
    then have "120 * sin (pi / 960) \<le> sin (pi / 3)"
      using sin_pi_960(2) by linarith
    then show ?thesis
      unfolding c using sin_pi_960(1) by (simp add: pos_le_divide_eq)
  qed
  have g4: "cmod (geom 320 (- (5 * pi / 6 + 133 * pi / 160))) \<le> 2"
  proof -
    have e: "- (5 * pi / 6 + 133 * pi / 160) / 2 = - (799 * pi / 960)" by simp
    have "1 / 2 \<le> sin (799 * pi / 960)" by (rule sin_ge_half) simp_all
    then have "1 / 2 \<le> \<bar>sin (- (5 * pi / 6 + 133 * pi / 160) / 2)\<bar>"
      unfolding e by simp
    then have "cmod (geom 320 (- (5 * pi / 6 + 133 * pi / 160))) \<le> 1 / (1 / 2)"
      by (rule geom_bound) simp
    then show ?thesis by simp
  qed
  have amp: "0 \<le> amplitude / 2" by (simp add: amplitude_def)
  have "cmod (fourier_sum (3 * pi / 4) (tone 320 phase (5 * pi / 6)))
      \<le> amplitude / 2 * (cmod (geom 320 (5 * pi / 6 - 3 * pi / 4))
           + cmod (geom 320 (- (5 * pi / 6 + 3 * pi / 4))))"
    by (rule fourier_sum_tone_upper)
  also have "\<dots> \<le> amplitude / 2 * (12 + 2)"
    using g1 g2 by (intro mult_left_mono amp) linarith
  also have "\<dots> \<le> amplitude / 2 * (120 - 2)"
    by (intro mult_left_mono amp) simp
  also have "\<dots> \<le> amplitude / 2 * (cmod (geom 320 (5 * pi / 6 - 133 * pi / 160))
           - cmod (geom 320 (- (5 * pi / 6 + 133 * pi / 160))))"
    using g3 g4 by (intro mult_left_mono amp) linarith
  also have "\<dots> \<le> cmod (fourier_sum (133 * pi / 160) (tone 320 phase (5 * pi / 6)))"
    by (rule fourier_sum_tone_lower)
  finally show ?thesis .
qed

end
